theory Spec2Isabelle
  imports Complex_Main "HOL-Library.AList"
begin

section \<open>Numbers\<close>

text \<open>
  A JavaScript \<open>number\<close>: \<open>NaN\<close>, the two infinities, or a finite value. The sign of a
  zero is not represented: the comparisons (\<open><\<close>, \<open><=\<close>, \<open>===\<close>) and \<open>Number.isInteger\<close>,
  by which the SDK examines a \<open>number\<close>, do not tell the two zeros apart.
\<close>

datatype number = NumberNaN | NumberInfinity | NumberNegInfinity | Number rat

definition isInteger :: "number \<Rightarrow> bool" where
  "isInteger n = (case n of Number r \<Rightarrow> of_int \<lfloor>r\<rfloor> = r | _ \<Rightarrow> False)"


definition leZero :: "number \<Rightarrow> bool" where
  "leZero n = (case n of NumberNegInfinity \<Rightarrow> True | Number r \<Rightarrow> r \<le> 0 | _ \<Rightarrow> False)"

text \<open>
  A value of the \<open>bignumber.js\<close> library, which the SDK uses under the library's default
  configuration: \<open>DECIMAL_PLACES = 20\<close> and \<open>ROUNDING_MODE = ROUND_HALF_UP\<close>. A finite
  BigNumber is a decimal with a sign: \<open>Num r\<close> is the value \<open>r\<close>, \<open>Num 0\<close> being the positive
  zero, and \<open>NegZero\<close> is the negative zero (\<open>BigNumber(-0)\<close>, \<open>BigNumber('-0')\<close>). Where the
  SDK converts a \<open>NumericAmount\<close> with \<open>BigNumber(amount)\<close>, the model takes the converted
  value.
\<close>

datatype BigNumber = NaN | PosInfinity | NegInfinity | NegZero | Num rat


definition isFinite :: "BigNumber \<Rightarrow> bool" where
  "isFinite x = (case x of Num r \<Rightarrow> True | NegZero \<Rightarrow> True | _ \<Rightarrow> False)"

definition isZero :: "BigNumber \<Rightarrow> bool" where
  "isZero x = (case x of Num r \<Rightarrow> r = 0 | NegZero \<Rightarrow> True | _ \<Rightarrow> False)"

text \<open>\<open>isNegative\<close> and \<open>isPositive\<close> read the sign, also of a zero.\<close>

definition isNegative :: "BigNumber \<Rightarrow> bool" where
  "isNegative x =
     (case x of NegInfinity \<Rightarrow> True | NegZero \<Rightarrow> True | Num r \<Rightarrow> r < 0 | _ \<Rightarrow> False)"


text \<open>The rational value of a finite BigNumber, both zeros having the value 0.\<close>

definition finiteValue :: "BigNumber \<Rightarrow> rat" where
  "finiteValue x = (case x of Num r \<Rightarrow> r | _ \<Rightarrow> 0)"


text \<open>
  \<open>comparedTo\<close>: 1, -1 or 0, and \<open>null\<close> (here \<open>None\<close>) when either side is \<open>NaN\<close>. The two
  zeros compare equal.
\<close>

definition comparedTo :: "BigNumber \<Rightarrow> BigNumber \<Rightarrow> int option" where
  "comparedTo x y =
     (if x = NaN \<or> y = NaN then None
      else if isFinite x \<and> isFinite y then
        Some (if finiteValue x < finiteValue y then - 1
              else if finiteValue y < finiteValue x then 1 else 0)
      else if x = y then Some 0
      else if x = PosInfinity \<or> y = NegInfinity then Some 1
      else Some (- 1))"

definition isGreaterThan :: "BigNumber \<Rightarrow> BigNumber \<Rightarrow> bool" where
  "isGreaterThan x y = (case comparedTo x y of Some c \<Rightarrow> 0 < c | None \<Rightarrow> False)"

definition isLessThan :: "BigNumber \<Rightarrow> BigNumber \<Rightarrow> bool" where
  "isLessThan x y = (case comparedTo x y of Some c \<Rightarrow> c < 0 | None \<Rightarrow> False)"


definition roundDown :: "nat \<Rightarrow> rat \<Rightarrow> rat" where
  "roundDown dp r =
     (if r < 0 then - (of_int \<lfloor>- r * 10 ^ dp\<rfloor> / 10 ^ dp)
      else of_int \<lfloor>r * 10 ^ dp\<rfloor> / 10 ^ dp)"




text \<open>The integer square root, one binary digit at a time.\<close>

function isqrt :: "int \<Rightarrow> int" where
  "isqrt n =
     (if n \<le> 0 then 0
      else (let r = 2 * isqrt (n div 4)
            in if (r + 1) * (r + 1) \<le> n then r + 1 else r))"
  by pat_completeness auto
termination
  by (relation "measure nat") auto

declare isqrt.simps [simp del]

text \<open>
  The square root of a non-negative rational, correctly rounded to \<open>dp\<close> decimal places,
  half up: \<open>\<lfloor>\<surd>r \<sqdot> 10^dp + 1/2\<rfloor>\<close> is \<open>(\<lfloor>\<surd>(4 \<sqdot> r \<sqdot> 10^(2 dp))\<rfloor> + 1) div 2\<close>.
\<close>

definition sqrtRounded :: "nat \<Rightarrow> rat \<Rightarrow> rat" where
  "sqrtRounded dp r = of_int ((isqrt \<lfloor>4 * r * 10 ^ (2 * dp)\<rfloor> + 1) div 2) / 10 ^ dp"





section \<open>JavaScript values and SDK errors\<close>

text \<open>
  A value of type \<open>unknown\<close>, as far as the SDK looks at it: \<open>undefined\<close>, a string,
  a number, a BigNumber, a boolean or a nested object. An object (\<open>Record<string, unknown>\<close>) is an
  association list with distinct keys, kept in insertion order.
\<close>

datatype jsvalue =
    JUndefined
  | JString string
  | JNumber number
  | JBigNumber BigNumber
  | JBool bool
  | JObject "(string \<times> jsvalue) list"

type_synonym jsrecord = "(string \<times> jsvalue) list"

text \<open>\<open>class GSwapSDKError\<close>: message, code and the optional details object.\<close>

record GSwapSDKError =
  message :: string
  code :: string
  details :: "jsrecord option"

text \<open>
  What a \<open>throw\<close> or a rejected promise carries: a \<open>GSwapSDKError\<close>, or any other error
  (one of the BigNumber library, a network failure), of which only a description is kept.
\<close>

datatype thrown = SDKError GSwapSDKError | OtherError string

section \<open>Token class keys and their canonical order\<close>

record GalaChainTokenClassKey =
  collection :: string
  category :: string
  type :: string
  additionalKey :: string

text \<open>The union type \<open>GalaChainTokenClassKey | string\<close>.\<close>

datatype token = TokenKey GalaChainTokenClassKey | TokenString string

definition stringifyTokenClassKey :: "token \<Rightarrow> string \<Rightarrow> string" where
  "stringifyTokenClassKey tokenClassKey separator =
     (case tokenClassKey of
        TokenString s \<Rightarrow> s
      | TokenKey k \<Rightarrow>
          collection k @ separator @ category k @ separator @ type k @ separator @ additionalKey k)"

text \<open>
  \<open>String.prototype.localeCompare\<close> is a built-in of the JavaScript host whose collation
  is chosen by the host, so the functions below take it as the parameter
  \<open>localeCompare\<close>: negative when the receiver sorts first, positive when the argument
  does, zero when the two collate equal.
\<close>

definition compareTokens :: "(string \<Rightarrow> string \<Rightarrow> int) \<Rightarrow> token \<Rightarrow> token \<Rightarrow> int" where
  "compareTokens localeCompare first second =
     localeCompare (stringifyTokenClassKey first ''|'') (stringifyTokenClassKey second ''|'')"

record 'a TokenOrdering =
  token0 :: token
  token1 :: token
  zeroForOne :: bool
  token0Attributes :: "'a option"
  token1Attributes :: "'a option"

fun jsOfToken :: "token \<Rightarrow> jsvalue" where
  "jsOfToken (TokenString s) = JString s"
| "jsOfToken (TokenKey k) =
     JObject [(''collection'', JString (collection k)), (''category'', JString (category k)),
              (''type'', JString (type k)), (''additionalKey'', JString (additionalKey k))]"

definition incorrectTokenOrderingError :: "token \<Rightarrow> token \<Rightarrow> GSwapSDKError" where
  "incorrectTokenOrderingError specifiedToken0 specifiedToken1 =
     \<lparr>message = ''Token ordering is incorrect. token0 should sort below token1.'',
      code = ''INCORRECT_TOKEN_ORDERING'',
      details = Some [(''specifiedToken0'', jsOfToken specifiedToken0),
                      (''specifiedToken1'', jsOfToken specifiedToken1)]\<rparr>"

text \<open>
  \<open>getTokenOrdering\<close>: an omitted attribute argument is \<open>None\<close>; the \<open>throw\<close> is the
  \<open>Inl\<close> result.
\<close>

definition getTokenOrdering ::
  "(string \<Rightarrow> string \<Rightarrow> int) \<Rightarrow> token \<Rightarrow> token \<Rightarrow> bool \<Rightarrow> 'a option \<Rightarrow> 'a option
     \<Rightarrow> GSwapSDKError + 'a TokenOrdering" where
  "getTokenOrdering localeCompare first second assertCorrectness token1Data token2Data =
     (let zeroForOne = compareTokens localeCompare first second < 0 in
      if zeroForOne then
        Inr \<lparr>token0 = first, token1 = second, zeroForOne = zeroForOne,
             token0Attributes = token1Data, token1Attributes = token2Data\<rparr>
      else if assertCorrectness then
        Inl (incorrectTokenOrderingError first second)
      else
        Inr \<lparr>token0 = second, token1 = first, zeroForOne = zeroForOne,
             token0Attributes = token2Data, token1Attributes = token1Data\<rparr>)"

text \<open>
  One collation to run the functions with: plain lexicographic comparison by character
  code. Like every collation it returns zero on two identical strings.
\<close>

fun codeUnitCompare :: "string \<Rightarrow> string \<Rightarrow> int" where
  "codeUnitCompare [] [] = 0"
| "codeUnitCompare [] (y # ys) = - 1"
| "codeUnitCompare (x # xs) [] = 1"
| "codeUnitCompare (x # xs) (y # ys) =
     (if (of_char x :: nat) < of_char y then - 1
      else if (of_char y :: nat) < of_char x then 1
      else codeUnitCompare xs ys)"

section \<open>The transaction waiter\<close>

text \<open>
  The value a transaction promise resolves with, \<open>{ txId, transactionHash, Data }\<close>, and
  the payload of a success notification, \<open>{ transactionId, Data }\<close>. Both carry a
  \<open>Data\<close> field, which the two records share.
\<close>

record withData =
  Data :: jsrecord

record txResult = withData +
  txId :: string
  transactionHash :: string

record successData = withData +
  transactionId :: string

definition transactionWaitTimeoutError :: "string \<Rightarrow> GSwapSDKError" where
  "transactionWaitTimeoutError txid =
     \<lparr>message = ''Transaction wait timed out.'', code = ''TRANSACTION_WAIT_TIMEOUT'',
      details = Some [(''txId'', JString txid)]\<rparr>"

text \<open>
  \<open>transactionWaitFailedError\<close>: the details object is \<open>{ txId, transactionHash, ...rest }\<close>,
  where \<open>rest\<close> is \<open>detail\<close> without its \<open>transactionId\<close>; spreading \<open>rest\<close> overwrites a
  key that is already there and appends every other key.
\<close>

definition transactionWaitFailedError :: "string \<Rightarrow> jsrecord \<Rightarrow> GSwapSDKError" where
  "transactionWaitFailedError txid detail =
     (let transactionHash =
            (case map_of detail ''transactionId'' of
               Some (JString s) \<Rightarrow> JString s
             | _ \<Rightarrow> JUndefined);
          rest = AList.delete ''transactionId'' detail
      in \<lparr>message = ''Transaction wait failed.'', code = ''TRANSACTION_WAIT_FAILED'',
          details = Some (fold (\<lambda>(k, v). AList.update k v) rest
                            [(''txId'', JString txid), (''transactionHash'', transactionHash)])\<rparr>)"

text \<open>
  A promise is a handle into the list of all promises created so far; the \<open>resolve\<close> and
  \<open>reject\<close> functions stored with it act on that handle. Settling a promise that is no
  longer pending has no effect, as in JavaScript; every call of \<open>resolve\<close> or \<open>reject\<close>
  is also logged in \<open>settlements\<close>.
\<close>

datatype promiseState = Pending | Fulfilled txResult | Rejected GSwapSDKError

record promiseInfo =
  promise :: nat
  waited :: bool
  timeoutId :: nat

text \<open>
  The object state (\<open>enabled\<close>, \<open>promiseInfoForTxId\<close>, a \<open>Map\<close> in insertion order)
  together with the part of the runtime it acts on: the promises, the log of settle calls,
  and the timers that \<open>setTimeout\<close> has started and that have neither fired nor been
  cleared, each with the transaction id its callback closes over and its delay.
\<close>

record TransactionWaiter =
  enabled :: bool
  promiseInfoForTxId :: "(string \<times> promiseInfo) list"
  promises :: "promiseState list"
  settlements :: "nat list"
  timers :: "(nat \<times> string \<times> int) list"
  nextTimeoutId :: nat

definition newTransactionWaiter :: TransactionWaiter where
  "newTransactionWaiter =
     \<lparr>enabled = False, promiseInfoForTxId = [], promises = [], settlements = [],
      timers = [], nextTimeoutId = 0\<rparr>"

definition settle :: "nat \<Rightarrow> promiseState \<Rightarrow> TransactionWaiter \<Rightarrow> TransactionWaiter" where
  "settle p outcome w =
     w\<lparr>promises :=
          (if p < length (promises w) \<and> promises w ! p = Pending
           then (promises w)[p := outcome] else promises w),
       settlements := settlements w @ [p]\<rparr>"

definition resolve :: "nat \<Rightarrow> txResult \<Rightarrow> TransactionWaiter \<Rightarrow> TransactionWaiter" where
  "resolve p result w = settle p (Fulfilled result) w"

definition reject :: "nat \<Rightarrow> GSwapSDKError \<Rightarrow> TransactionWaiter \<Rightarrow> TransactionWaiter" where
  "reject p err w = settle p (Rejected err) w"

definition clearTimeout :: "nat \<Rightarrow> TransactionWaiter \<Rightarrow> TransactionWaiter" where
  "clearTimeout tid w = w\<lparr>timers := AList.delete tid (timers w)\<rparr>"

definition setEnabled :: "bool \<Rightarrow> TransactionWaiter \<Rightarrow> TransactionWaiter" where
  "setEnabled flag w =
     (let w1 = w\<lparr>enabled := flag\<rparr> in
      if \<not> flag then
        (fold (\<lambda>(txid, info) s.
                 reject (promise info)
                   (transactionWaitFailedError txid
                      [(''message'', JString ''Transaction waiter disabled'')])
                   (clearTimeout (timeoutId info) s))
              (promiseInfoForTxId w1) w1)
        \<lparr>promiseInfoForTxId := []\<rparr>
      else w1)"

definition registerTxId ::
  "string \<Rightarrow> int \<Rightarrow> TransactionWaiter \<Rightarrow> GSwapSDKError + TransactionWaiter" where
  "registerTxId txid timeoutMs w =
     (if map_of (promiseInfoForTxId w) txid \<noteq> None then
        Inl \<lparr>message = ''Transaction ID is already registered'',
             code = ''TRANSACTION_ID_ALREADY_REGISTERED'',
             details = Some [(''txId'', JString txid)]\<rparr>
      else if \<not> enabled w then Inr w
      else
        let p = length (promises w);
            tid = nextTimeoutId w
        in Inr (w\<lparr>promises := promises w @ [Pending],
                  timers := AList.update tid (txid, timeoutMs) (timers w),
                  nextTimeoutId := Suc tid,
                  promiseInfoForTxId :=
                    AList.update txid \<lparr>promise = p, waited = False, timeoutId = tid\<rparr>
                      (promiseInfoForTxId w)\<rparr>))"

text \<open>The callback that \<open>registerTxId\<close> hands to \<open>setTimeout\<close>.\<close>

definition timeoutCallback :: "string \<Rightarrow> TransactionWaiter \<Rightarrow> TransactionWaiter" where
  "timeoutCallback txid w =
     (case map_of (promiseInfoForTxId w) txid of
        None \<Rightarrow> w
      | Some info \<Rightarrow>
          (let w1 = (if waited info
                     then reject (promise info) (transactionWaitTimeoutError txid) w
                     else resolve (promise info)
                            \<lparr>Data = [], txId = txid, transactionHash = txid\<rparr> w)
           in w1\<lparr>promiseInfoForTxId := AList.delete txid (promiseInfoForTxId w1)\<rparr>))"

text \<open>
  The runtime fires a timer: a timer that is no longer pending does nothing; a pending one
  is consumed and its callback runs.
\<close>

definition fireTimer :: "nat \<Rightarrow> TransactionWaiter \<Rightarrow> TransactionWaiter" where
  "fireTimer tid w =
     (case map_of (timers w) tid of
        None \<Rightarrow> w
      | Some (txid, timeoutMs) \<Rightarrow> timeoutCallback txid (clearTimeout tid w))"

text \<open>\<open>wait\<close> returns the promise of the entry, or throws.\<close>

definition wait :: "string \<Rightarrow> TransactionWaiter \<Rightarrow> GSwapSDKError + nat \<times> TransactionWaiter" where
  "wait txid w =
     (case map_of (promiseInfoForTxId w) txid of
        None \<Rightarrow>
          Inl \<lparr>message = ''Transaction ID is not registered for waiting'',
               code = ''TRANSACTION_ID_NOT_REGISTERED'',
               details = Some [(''txId'', JString txid)]\<rparr>
      | Some info \<Rightarrow>
          Inr (promise info,
               w\<lparr>promiseInfoForTxId :=
                    AList.update txid (info\<lparr>waited := True\<rparr>) (promiseInfoForTxId w)\<rparr>))"

definition notifySuccess :: "string \<Rightarrow> successData \<Rightarrow> TransactionWaiter \<Rightarrow> TransactionWaiter" where
  "notifySuccess txid dat w =
     (case map_of (promiseInfoForTxId w) txid of
        None \<Rightarrow> w
      | Some info \<Rightarrow>
          (let w1 = clearTimeout (timeoutId info) w;
               w2 = resolve (promise info)
                      \<lparr>Data = Data dat, txId = txid, transactionHash = transactionId dat\<rparr> w1
           in w2\<lparr>promiseInfoForTxId := AList.delete txid (promiseInfoForTxId w2)\<rparr>))"

definition notifyFailure :: "string \<Rightarrow> jsrecord \<Rightarrow> TransactionWaiter \<Rightarrow> TransactionWaiter" where
  "notifyFailure txid detail w =
     (case map_of (promiseInfoForTxId w) txid of
        None \<Rightarrow> w
      | Some info \<Rightarrow>
          (let w1 = clearTimeout (timeoutId info) w;
               w2 = (if waited info
                     then reject (promise info) (transactionWaitFailedError txid detail) w1
                     else resolve (promise info)
                            \<lparr>Data = [], txId = txid, transactionHash = txid\<rparr> w1)
           in w2\<lparr>promiseInfoForTxId := AList.delete txid (promiseInfoForTxId w2)\<rparr>))"

text \<open>
  Everything that can happen to a waiter: the five methods, called by the SDK and its
  user, and a timer of the runtime firing. A method that throws leaves the state as it
  was, since each \<open>throw\<close> comes before any assignment.
\<close>

datatype event =
    SetEnabled bool
  | RegisterTxId string int
  | Wait string
  | NotifySuccess string successData
  | NotifyFailure string jsrecord
  | TimerFires nat

fun step :: "event \<Rightarrow> TransactionWaiter \<Rightarrow> TransactionWaiter" where
  "step (SetEnabled flag) w = setEnabled flag w"
| "step (RegisterTxId txid timeoutMs) w =
     (case registerTxId txid timeoutMs w of Inl err \<Rightarrow> w | Inr w1 \<Rightarrow> w1)"
| "step (Wait txid) w = (case wait txid w of Inl err \<Rightarrow> w | Inr (p, w1) \<Rightarrow> w1)"
| "step (NotifySuccess txid dat) w = notifySuccess txid dat w"
| "step (NotifyFailure txid detail) w = notifyFailure txid detail w"
| "step (TimerFires tid) w = fireTimer tid w"

fun run :: "event list \<Rightarrow> TransactionWaiter \<Rightarrow> TransactionWaiter" where
  "run [] w = w"
| "run (e # es) w = run es (step e w)"

inductive reachable :: "TransactionWaiter \<Rightarrow> bool" where
  reachable_new: "reachable newTransactionWaiter"
| reachable_step: "reachable w \<Longrightarrow> reachable (step e w)"

text \<open>The events that end the life of a registry entry.\<close>

fun terminal :: "event \<Rightarrow> bool" where
  "terminal (NotifySuccess txid dat) = True"
| "terminal (NotifyFailure txid detail) = True"
| "terminal (TimerFires tid) = True"
| "terminal e = False"

text \<open>
  The events on one tracking id after its registration: the caller waits, the remote
  system notifies, or the timer started for the id fires.
\<close>

fun eventOf :: "string \<Rightarrow> nat \<Rightarrow> event \<Rightarrow> bool" where
  "eventOf txid tid (Wait t) = (t = txid)"
| "eventOf txid tid (NotifySuccess t dat) = (t = txid)"
| "eventOf txid tid (NotifyFailure t detail) = (t = txid)"
| "eventOf txid tid (TimerFires n) = (n = tid)"
| "eventOf txid tid e = False"

text \<open>
  The invariant of the waiter: the keys of the map are distinct; every entry owns a
  promise that exists, is pending, has never been settled and belongs to no other entry;
  every entry has its timer pending, and every pending timer belongs to a live entry; a
  disabled waiter has no entries.
\<close>

definition waiterInv :: "TransactionWaiter \<Rightarrow> bool" where
  "waiterInv w \<longleftrightarrow>
     distinct (map fst (promiseInfoForTxId w))
   \<and> (\<forall>txid info. map_of (promiseInfoForTxId w) txid = Some info \<longrightarrow>
         promise info < length (promises w) \<and> promises w ! promise info = Pending
         \<and> promise info \<notin> set (settlements w)
         \<and> (\<exists>ms. map_of (timers w) (timeoutId info) = Some (txid, ms)))
   \<and> (\<forall>t1 t2 i1 i2. map_of (promiseInfoForTxId w) t1 = Some i1
         \<and> map_of (promiseInfoForTxId w) t2 = Some i2 \<and> promise i1 = promise i2 \<longrightarrow> t1 = t2)
   \<and> (\<forall>tid txid ms. map_of (timers w) tid = Some (txid, ms) \<longrightarrow>
         tid < nextTimeoutId w
         \<and> (\<exists>info. map_of (promiseInfoForTxId w) txid = Some info \<and> timeoutId info = tid))
   \<and> (\<forall>p \<in> set (settlements w). p < length (promises w))
   \<and> (\<not> enabled w \<longrightarrow> promiseInfoForTxId w = [])"

text \<open>What \<open>setEnabled(false)\<close> does to one entry of the map.\<close>

definition disableEntry :: "string \<times> promiseInfo \<Rightarrow> TransactionWaiter \<Rightarrow> TransactionWaiter" where
  "disableEntry = (\<lambda>(txid, info) s.
     reject (promise info)
       (transactionWaitFailedError txid [(''message'', JString ''Transaction waiter disabled'')])
       (clearTimeout (timeoutId info) s))"

text \<open>
  The common shape of the three terminal transitions of an entry: clear its timer, settle
  its promise, delete it from the map.
\<close>

definition finish :: "string \<Rightarrow> promiseInfo \<Rightarrow> promiseState \<Rightarrow> TransactionWaiter \<Rightarrow> TransactionWaiter" where
  "finish txid info outcome w =
     (settle (promise info) outcome (clearTimeout (timeoutId info) w))
       \<lparr>promiseInfoForTxId := AList.delete txid (promiseInfoForTxId w)\<rparr>"

text \<open>
  The two conditions an entry for \<open>txid\<close>, with promise \<open>p\<close> and timer \<open>tid\<close>, goes through:
  live (entry present, promise pending and never settled, timer pending), then done (entry
  and timer gone, promise settled by exactly one call).
\<close>

definition entryLive :: "string \<Rightarrow> nat \<Rightarrow> nat \<Rightarrow> TransactionWaiter \<Rightarrow> bool" where
  "entryLive txid tid p w \<longleftrightarrow>
     (\<exists>info. map_of (promiseInfoForTxId w) txid = Some info \<and> promise info = p
             \<and> timeoutId info = tid)
   \<and> p < length (promises w) \<and> promises w ! p = Pending
   \<and> count_list (settlements w) p = 0
   \<and> (\<exists>ms. map_of (timers w) tid = Some (txid, ms))"

definition entryDone :: "string \<Rightarrow> nat \<Rightarrow> nat \<Rightarrow> TransactionWaiter \<Rightarrow> bool" where
  "entryDone txid tid p w \<longleftrightarrow>
     map_of (promiseInfoForTxId w) txid = None \<and> map_of (timers w) tid = None
   \<and> p < length (promises w) \<and> promises w ! p \<noteq> Pending
   \<and> count_list (settlements w) p = 1"

text \<open>
  A waiter to run the theorems on: the channel is connected, two transactions are
  registered, and the caller has called \<open>wait\<close> on the second one only.
\<close>

definition twoPending :: TransactionWaiter where
  "twoPending =
     run [SetEnabled True, RegisterTxId ''tx1'' 30000, RegisterTxId ''tx2'' 30000, Wait ''tx2'']
       newTransactionWaiter"

text \<open>
  A race on one tracking id: the caller waits, the timer fires, and then a success
  notification, a failure notification and the timer arrive late.
\<close>

definition connected :: TransactionWaiter where
  "connected = step (SetEnabled True) newTransactionWaiter"

definition raceEvents :: "event list" where
  "raceEvents =
     [Wait ''tx1'', TimerFires 0,
      NotifySuccess ''tx1'' \<lparr>Data = [], transactionId = ''0xabc''\<rparr>,
      NotifyFailure ''tx1'' [(''message'', JString ''late'')], TimerFires 0]"

section \<open>Validation\<close>

text \<open>Each validator returns \<open>Inr ()\<close> or the error it throws.\<close>

definition validateNumericAmount :: "BigNumber \<Rightarrow> string \<Rightarrow> bool \<Rightarrow> GSwapSDKError + unit" where
  "validateNumericAmount amount parameterName allowZero =
     (let bnAmount = amount in
      if \<not> isFinite bnAmount then
        Inl \<lparr>message = ''Invalid '' @ parameterName @ '': must be a finite number'',
             code = ''VALIDATION_ERROR'',
             details = Some [(''type'', JString ''INVALID_NUMERIC_AMOUNT''),
                             (''parameterName'', JString parameterName),
                             (''value'', JBigNumber amount),
                             (''reason'', JString ''not_finite'')]\<rparr>
      else if \<not> allowZero \<and> isZero bnAmount then
        Inl \<lparr>message = ''Invalid '' @ parameterName @ '': must be positive'',
             code = ''VALIDATION_ERROR'',
             details = Some [(''type'', JString ''INVALID_NUMERIC_AMOUNT''),
                             (''parameterName'', JString parameterName),
                             (''value'', JBigNumber amount),
                             (''reason'', JString ''zero_not_allowed'')]\<rparr>
      else if isNegative bnAmount then
        Inl \<lparr>message = ''Invalid '' @ parameterName @ '': must be ''
                         @ (if allowZero then ''non-negative'' else ''positive''),
             code = ''VALIDATION_ERROR'',
             details = Some [(''type'', JString ''INVALID_NUMERIC_AMOUNT''),
                             (''parameterName'', JString parameterName),
                             (''value'', JBigNumber amount),
                             (''reason'', JString ''negative'')]\<rparr>
      else Inr ())"



definition validateTickSpacing :: "number \<Rightarrow> GSwapSDKError + unit" where
  "validateTickSpacing tickSpacing =
     (if \<not> isInteger tickSpacing \<or> leZero tickSpacing then
        Inl \<lparr>message = ''Invalid tick spacing: must be a positive integer'',
             code = ''VALIDATION_ERROR'',
             details = Some [(''type'', JString ''INVALID_TICK_SPACING''),
                             (''value'', JNumber tickSpacing)]\<rparr>
      else Inr ())"

section \<open>Ticks and prices\<close>

text \<open>
  \<open>toNumber\<close>: \<open>NaN\<close>, the infinities and the zeros convert exactly (a \<open>number\<close> zero of
  either sign is \<open>=== 0\<close>); any other finite value is rounded to a double by the runtime,
  which is the parameter \<open>toDouble\<close> (a value too large for a double becomes \<open>Infinity\<close>,
  one too small becomes zero).
\<close>

definition toNumber :: "(rat \<Rightarrow> number) \<Rightarrow> BigNumber \<Rightarrow> number" where
  "toNumber toDouble x =
     (case x of
        NaN \<Rightarrow> NumberNaN
      | PosInfinity \<Rightarrow> NumberInfinity
      | NegInfinity \<Rightarrow> NumberNegInfinity
      | NegZero \<Rightarrow> Number 0
      | Num r \<Rightarrow> (if r = 0 then Number 0 else toDouble r))"

text \<open>
  \<open>calculateTicksForPrice\<close>. The floating-point expression
  \<open>Math.round(Math.log(priceNumber) / Math.log(1.0001))\<close> is the parameter \<open>roundLog\<close>; on
  a positive finite price it is an integer far below \<open>2^53\<close>, so that the division by the
  tick spacing, the floor and the multiplication that follow are exact.
\<close>

definition calculateTicksForPrice ::
  "(rat \<Rightarrow> number) \<Rightarrow> (number \<Rightarrow> int) \<Rightarrow> BigNumber \<Rightarrow> number \<Rightarrow> GSwapSDKError + int" where
  "calculateTicksForPrice toDouble roundLog price tickSpacing =
     (case validateNumericAmount price ''price'' True of
        Inl err \<Rightarrow> Inl err
      | Inr u \<Rightarrow>
     (case validateTickSpacing tickSpacing of
        Inl err \<Rightarrow> Inl err
      | Inr u \<Rightarrow>
          (let priceNumber = toNumber toDouble price in
           if priceNumber = Number 0 then Inr (- 886800)
           else if priceNumber = NumberInfinity then Inr 886800
           else
             (let uncoercedTicks = roundLog priceNumber;
                  spacing = (case tickSpacing of Number s \<Rightarrow> s | _ \<Rightarrow> 1);
                  ticks = \<lfloor>of_int uncoercedTicks / spacing\<rfloor> * \<lfloor>spacing\<rfloor>
              in Inr (min (max ticks (- 886800)) 886800)))))"

text \<open>
  \<open>calculatePriceForTicks\<close>. \<open>BigNumber(Math.pow(1.0001, tick))\<close>, floating point, is the
  parameter \<open>powTick\<close>.
\<close>

definition calculatePriceForTicks :: "(number \<Rightarrow> BigNumber) \<Rightarrow> number \<Rightarrow> BigNumber" where
  "calculatePriceForTicks powTick tick =
     (if tick = Number (- 886800) then Num 0
      else if tick = Number 886800 then PosInfinity
      else powTick tick)"

section \<open>The optimal position size\<close>








section \<open>Quoting\<close>

datatype FEE_TIER = PERCENT_00_05 | PERCENT_00_30 | PERCENT_01_00

fun feeValue :: "FEE_TIER \<Rightarrow> int" where
  "feeValue PERCENT_00_05 = 500"
| "feeValue PERCENT_00_30 = 3000"
| "feeValue PERCENT_01_00 = 10000"

fun feeString :: "FEE_TIER \<Rightarrow> string" where
  "feeString PERCENT_00_05 = ''500''"
| "feeString PERCENT_00_30 = ''3000''"
| "feeString PERCENT_01_00 = ''10000''"

record GetQuoteResult =
  amount0 :: BigNumber
  amount1 :: BigNumber
  currentPoolSqrtPrice :: BigNumber
  newPoolSqrtPrice :: BigNumber
  currentPrice :: BigNumber
  newPrice :: BigNumber
  inTokenAmount :: BigNumber
  outTokenAmount :: BigNumber
  priceImpact :: BigNumber
  feeTier :: FEE_TIER

definition noPoolAvailableError :: "token \<Rightarrow> token \<Rightarrow> FEE_TIER option \<Rightarrow> GSwapSDKError" where
  "noPoolAvailableError tokenIn tokenOut fee =
     \<lparr>message =
        (case fee of
           Some f \<Rightarrow> ''No pool available for the specified token pair at fee tier '' @ feeString f
         | None \<Rightarrow> ''No pools available for the specified token pair''),
      code = ''NO_POOL_AVAILABLE'',
      details = Some [(''tokenIn'', jsOfToken tokenIn), (''tokenOut'', jsOfToken tokenOut),
                      (''fee'', (case fee of Some f \<Rightarrow> JNumber (Number (of_int (feeValue f)))
                                           | None \<Rightarrow> JUndefined))]\<rparr>"

text \<open>
  The test of the \<open>catch\<close> block: a \<open>GSwapSDKError\<close> whose code says that the pool does
  not exist or has too little liquidity.
\<close>

definition isPoolAbsent :: "thrown \<Rightarrow> bool" where
  "isPoolAbsent err =
     (case err of
        SDKError e \<Rightarrow> code e = ''CONFLICT'' \<or> code e = ''OBJECT_NOT_FOUND''
      | OtherError s \<Rightarrow> False)"

definition allFees :: "FEE_TIER list" where
  "allFees = [PERCENT_00_05, PERCENT_00_30, PERCENT_01_00]"

text \<open>
  \<open>Promise.all\<close> over promises that have settled as \<open>ps\<close>: it rejects with the reason of
  the promise that rejected first in time, and otherwise fulfils with all the values in
  index order. \<open>settleOrder\<close> lists the indices in the order in which the promises
  settled; indices it leaves out settled afterwards, in index order.
\<close>

definition promiseAll :: "nat list \<Rightarrow> (thrown + 'a) list \<Rightarrow> thrown + 'a list" where
  "promiseAll settleOrder ps =
     (case concat (map (\<lambda>i. if i < length ps then (case ps ! i of Inl e \<Rightarrow> [e] | Inr v \<Rightarrow> [])
                              else [])
                     (settleOrder @ [0..<length ps])) of
        e # es \<Rightarrow> Inl e
      | [] \<Rightarrow> Inr (concat (map (\<lambda>p. case p of Inl e \<Rightarrow> [] | Inr v \<Rightarrow> [v]) ps)))"

text \<open>
  \<open>Array.prototype.reduce\<close> without an initial value: the first element starts the
  accumulation; on an empty array it throws a \<open>TypeError\<close>, here \<open>None\<close>.
\<close>

fun reduce :: "('a \<Rightarrow> 'a \<Rightarrow> 'a) \<Rightarrow> 'a list \<Rightarrow> 'a option" where
  "reduce f [] = None"
| "reduce f (x # xs) = Some (foldl f x xs)"

text \<open>
  \<open>quoteExactInput\<close>. The parameter \<open>getSingleQuoteExactInput\<close> gives, for each fee tier,
  how the request \<open>this.getSingleQuoteExactInput(tokenIn, tokenOut, feeTier, amountIn)\<close>
  settles: with a quote, or with what it throws.
\<close>

definition quoteExactInput ::
  "(FEE_TIER \<Rightarrow> thrown + GetQuoteResult) \<Rightarrow> nat list \<Rightarrow> token \<Rightarrow> token \<Rightarrow> BigNumber
     \<Rightarrow> FEE_TIER option \<Rightarrow> thrown + GetQuoteResult" where
  "quoteExactInput getSingleQuoteExactInput settleOrder tokenIn tokenOut amountIn fee =
     (case validateNumericAmount amountIn ''amountIn'' False of
        Inl err \<Rightarrow> Inl (SDKError err)
      | Inr u \<Rightarrow>
     (case fee of
        Some f \<Rightarrow> getSingleQuoteExactInput f
      | None \<Rightarrow>
          (let quotePromises =
                 map (\<lambda>feeTier.
                        case getSingleQuoteExactInput feeTier of
                          Inr quote \<Rightarrow> Inr (Some quote)
                        | Inl err \<Rightarrow> if isPoolAbsent err then Inr None else Inl err)
                     allFees
           in case promiseAll settleOrder quotePromises of
                Inl err \<Rightarrow> Inl err
              | Inr results \<Rightarrow>
                  (let quotes = concat (map (\<lambda>quote. case quote of None \<Rightarrow> [] | Some q \<Rightarrow> [q])
                                          results)
                   in if length quotes = 0 then
                        Inl (SDKError (noPoolAvailableError tokenIn tokenOut None))
                      else
                        (case reduce (\<lambda>best current.
                                        if isGreaterThan (outTokenAmount current)
                                             (outTokenAmount best)
                                        then current else best) quotes of
                           Some best \<Rightarrow> Inr best
                         | None \<Rightarrow> Inl (OtherError ''TypeError''))))))"

definition quoteExactOutput ::
  "(FEE_TIER \<Rightarrow> thrown + GetQuoteResult) \<Rightarrow> nat list \<Rightarrow> token \<Rightarrow> token \<Rightarrow> BigNumber
     \<Rightarrow> FEE_TIER option \<Rightarrow> thrown + GetQuoteResult" where
  "quoteExactOutput getSingleQuoteExactOutput settleOrder tokenIn tokenOut amountOut fee =
     (case validateNumericAmount amountOut ''amountOut'' False of
        Inl err \<Rightarrow> Inl (SDKError err)
      | Inr u \<Rightarrow>
     (case fee of
        Some f \<Rightarrow> getSingleQuoteExactOutput f
      | None \<Rightarrow>
          (let quotePromises =
                 map (\<lambda>feeTier.
                        case getSingleQuoteExactOutput feeTier of
                          Inr quote \<Rightarrow> Inr (Some quote)
                        | Inl err \<Rightarrow> if isPoolAbsent err then Inr None else Inl err)
                     allFees
           in case promiseAll settleOrder quotePromises of
                Inl err \<Rightarrow> Inl err
              | Inr results \<Rightarrow>
                  (let quotes = concat (map (\<lambda>quote. case quote of None \<Rightarrow> [] | Some q \<Rightarrow> [q])
                                          results)
                   in if length quotes = 0 then
                        Inl (SDKError (noPoolAvailableError tokenIn tokenOut None))
                      else
                        (case reduce (\<lambda>best current.
                                        if isLessThan (inTokenAmount current) (inTokenAmount best)
                                        then current else best) quotes of
                           Some best \<Rightarrow> Inr best
                         | None \<Rightarrow> Inl (OtherError ''TypeError''))))))"

text \<open>The quotes that the fee tiers returned, in the iteration order of the tiers.\<close>

definition returnedQuotes :: "(FEE_TIER \<Rightarrow> thrown + GetQuoteResult) \<Rightarrow> GetQuoteResult list" where
  "returnedQuotes single =
     concat (map (\<lambda>feeTier. case single feeTier of Inl err \<Rightarrow> [] | Inr quote \<Rightarrow> [quote]) allFees)"

text \<open>Example quotes: all fields are the given amount, except the fee tier.\<close>

definition exampleQuote :: "FEE_TIER \<Rightarrow> rat \<Rightarrow> rat \<Rightarrow> GetQuoteResult" where
  "exampleQuote tier amountIn amountOut =
     \<lparr>amount0 = Num amountIn, amount1 = Num (- amountOut), currentPoolSqrtPrice = Num 1,
      newPoolSqrtPrice = Num 1, currentPrice = Num 1, newPrice = Num 1,
      inTokenAmount = Num amountIn, outTokenAmount = Num amountOut, priceImpact = Num 0,
      feeTier = tier\<rparr>"

text \<open>
  A quote as \<open>getSingleQuote\<close> builds it from a response whose amounts do not read as
  numbers: \<open>BigNumber\<close> of such a field is \<open>NaN\<close>, and so are the amounts that derive from
  it.
\<close>

definition notANumberQuote :: "FEE_TIER \<Rightarrow> GetQuoteResult" where
  "notANumberQuote tier =
     \<lparr>amount0 = NaN, amount1 = NaN, currentPoolSqrtPrice = Num 1,
      newPoolSqrtPrice = Num 1, currentPrice = Num 1, newPrice = Num 1,
      inTokenAmount = NaN, outTokenAmount = NaN, priceImpact = Num 0,
      feeTier = tier\<rparr>"

definition poolAbsentError :: thrown where
  "poolAbsentError =
     SDKError \<lparr>message = ''GalaChain Error OBJECT_NOT_FOUND'', code = ''OBJECT_NOT_FOUND'',
               details = None\<rparr>"

definition httpError :: thrown where
  "httpError =
     SDKError \<lparr>message = ''Unexpected HTTP Error 500'', code = ''HTTP_ERROR'', details = None\<rparr>"

text \<open>
  The choice that \<open>reduce\<close> makes at each step, for a given notion of a better quote, and
  the part that \<open>quoteExactInput\<close> and \<open>quoteExactOutput\<close> have in common once the
  amount is validated and no fee tier is given.
\<close>

definition pick :: "('a \<Rightarrow> 'a \<Rightarrow> bool) \<Rightarrow> 'a \<Rightarrow> 'a \<Rightarrow> 'a" where
  "pick better best current = (if better current best then current else best)"

definition quoteAllTiers ::
  "(GetQuoteResult \<Rightarrow> GetQuoteResult \<Rightarrow> GetQuoteResult) \<Rightarrow> (FEE_TIER \<Rightarrow> thrown + GetQuoteResult)
     \<Rightarrow> nat list \<Rightarrow> token \<Rightarrow> token \<Rightarrow> thrown + GetQuoteResult" where
  "quoteAllTiers f single settleOrder tokenIn tokenOut =
     (let quotePromises =
            map (\<lambda>feeTier.
                   case single feeTier of
                     Inr quote \<Rightarrow> Inr (Some quote)
                   | Inl err \<Rightarrow> if isPoolAbsent err then Inr None else Inl err)
                allFees
      in case promiseAll settleOrder quotePromises of
           Inl err \<Rightarrow> Inl err
         | Inr results \<Rightarrow>
             (let quotes = concat (map (\<lambda>quote. case quote of None \<Rightarrow> [] | Some q \<Rightarrow> [q])
                                     results)
              in if length quotes = 0 then
                   Inl (SDKError (noPoolAvailableError tokenIn tokenOut None))
                 else
                   (case reduce f quotes of
                      Some best \<Rightarrow> Inr best
                    | None \<Rightarrow> Inl (OtherError ''TypeError''))))"

text \<open>
  Five situations to run the theorems on: the first tier has no pool and the other two
  quote outputs 10 and 12 for inputs 22 and 18; the middle tier fails with an HTTP error
  while the other two return quotes; no tier has a pool; the first two tiers quote the
  same amounts and the third has no pool; the first tier returns a quote whose amounts
  are not numbers and the other two quote as in the first situation.
\<close>

fun tiersFirstAbsent :: "FEE_TIER \<Rightarrow> thrown + GetQuoteResult" where
  "tiersFirstAbsent PERCENT_00_05 = Inl poolAbsentError"
| "tiersFirstAbsent PERCENT_00_30 = Inr (exampleQuote PERCENT_00_30 22 10)"
| "tiersFirstAbsent PERCENT_01_00 = Inr (exampleQuote PERCENT_01_00 18 12)"

fun tiersWithFailure :: "FEE_TIER \<Rightarrow> thrown + GetQuoteResult" where
  "tiersWithFailure PERCENT_00_05 = Inr (exampleQuote PERCENT_00_05 22 10)"
| "tiersWithFailure PERCENT_00_30 = Inl httpError"
| "tiersWithFailure PERCENT_01_00 = Inr (exampleQuote PERCENT_01_00 18 12)"

definition tiersAllAbsent :: "FEE_TIER \<Rightarrow> thrown + GetQuoteResult" where
  "tiersAllAbsent tier = Inl poolAbsentError"

fun tiersTie :: "FEE_TIER \<Rightarrow> thrown + GetQuoteResult" where
  "tiersTie PERCENT_00_05 = Inr (exampleQuote PERCENT_00_05 20 12)"
| "tiersTie PERCENT_00_30 = Inr (exampleQuote PERCENT_00_30 20 12)"
| "tiersTie PERCENT_01_00 = Inl poolAbsentError"

fun tiersNotANumber :: "FEE_TIER \<Rightarrow> thrown + GetQuoteResult" where
  "tiersNotANumber PERCENT_00_05 = Inr (notANumberQuote PERCENT_00_05)"
| "tiersNotANumber PERCENT_00_30 = Inr (exampleQuote PERCENT_00_30 22 10)"
| "tiersNotANumber PERCENT_01_00 = Inr (exampleQuote PERCENT_01_00 18 12)"

definition gala :: token where
  "gala = TokenString ''GALA|Unit|none|none''"

definition silk :: token where
  "silk = TokenString ''SILK|Unit|none|none''"

section \<open>Token ordering: theorems\<close>

lemma codeUnitCompare_antisym: "(codeUnitCompare x y < 0) = (0 < codeUnitCompare y x)"
  by (induction x y rule: codeUnitCompare.induct) auto

text \<open>
  C8. In strict mode (\<open>assertCorrectness = true\<close>) the call throws
  \<open>INCORRECT_TOKEN_ORDERING\<close> exactly when the first argument does not canonically precede
  the second; when it does precede, the call returns the two arguments unchanged as
  \<open>token0\<close> and \<open>token1\<close>, with their attributes in the order given.
\<close>

theorem getTokenOrdering_strict:
  "((\<exists>e. getTokenOrdering lc first second True d1 d2 = Inl e) \<longleftrightarrow>
      \<not> compareTokens lc first second < 0)
   \<and> (\<forall>e. getTokenOrdering lc first second True d1 d2 = Inl e \<longrightarrow>
          code e = ''INCORRECT_TOKEN_ORDERING'' \<and> e = incorrectTokenOrderingError first second)
   \<and> (compareTokens lc first second < 0 \<longrightarrow>
        getTokenOrdering lc first second True d1 d2 =
          Inr \<lparr>token0 = first, token1 = second, zeroForOne = True,
               token0Attributes = d1, token1Attributes = d2\<rparr>)"
  by (auto simp: getTokenOrdering_def incorrectTokenOrderingError_def Let_def)

theorem getTokenOrdering_strict_witness:
  "compareTokens codeUnitCompare (TokenString ''GALA|Unit|none|none'')
       (TokenString ''SILK|Unit|none|none'') < 0
   \<and> getTokenOrdering codeUnitCompare (TokenString ''GALA|Unit|none|none'')
         (TokenString ''SILK|Unit|none|none'') True (Some (1::nat)) (Some 2) =
       Inr \<lparr>token0 = TokenString ''GALA|Unit|none|none'',
            token1 = TokenString ''SILK|Unit|none|none'', zeroForOne = True,
            token0Attributes = Some 1, token1Attributes = Some 2\<rparr>
   \<and> (\<exists>e. getTokenOrdering codeUnitCompare (TokenString ''SILK|Unit|none|none'')
         (TokenString ''GALA|Unit|none|none'') True (Some (1::nat)) (Some 2) = Inl e
         \<and> code e = ''INCORRECT_TOKEN_ORDERING'')"
proof -
  have lt: "compareTokens codeUnitCompare (TokenString ''GALA|Unit|none|none'')
       (TokenString ''SILK|Unit|none|none'') < 0"
    by (simp add: compareTokens_def stringifyTokenClassKey_def)
  have ge: "\<not> compareTokens codeUnitCompare (TokenString ''SILK|Unit|none|none'')
       (TokenString ''GALA|Unit|none|none'') < 0"
    by (simp add: compareTokens_def stringifyTokenClassKey_def)
  from getTokenOrdering_strict
         [of codeUnitCompare "TokenString ''GALA|Unit|none|none''"
             "TokenString ''SILK|Unit|none|none''" "Some (1::nat)" "Some 2"] lt
  have a: "getTokenOrdering codeUnitCompare (TokenString ''GALA|Unit|none|none'')
         (TokenString ''SILK|Unit|none|none'') True (Some (1::nat)) (Some 2) =
       Inr \<lparr>token0 = TokenString ''GALA|Unit|none|none'',
            token1 = TokenString ''SILK|Unit|none|none'', zeroForOne = True,
            token0Attributes = Some 1, token1Attributes = Some 2\<rparr>"
    by blast
  from getTokenOrdering_strict
         [of codeUnitCompare "TokenString ''SILK|Unit|none|none''"
             "TokenString ''GALA|Unit|none|none''" "Some (1::nat)" "Some 2"] ge
  have b: "\<exists>e. getTokenOrdering codeUnitCompare (TokenString ''SILK|Unit|none|none'')
         (TokenString ''GALA|Unit|none|none'') True (Some (1::nat)) (Some 2) = Inl e
         \<and> code e = ''INCORRECT_TOKEN_ORDERING''"
    by blast
  from lt a b show ?thesis by blast
qed

text \<open>
  C7, as stated, for every pair of distinct tokens: refuted. Two distinct class keys whose
  fields contain the separator can stringify to the same canonical string; the
  comparison is then zero in both directions, each call takes the \<open>else\<close> branch and
  returns its own second argument as \<open>token0\<close>.
\<close>

theorem getTokenOrdering_same_string_counterexample:
  "TokenKey \<lparr>collection = ''GALA|Unit'', category = ''none'', type = ''none'',
             additionalKey = ''x''\<rparr>
     \<noteq> TokenKey \<lparr>collection = ''GALA'', category = ''Unit|none'', type = ''none'',
                 additionalKey = ''x''\<rparr>
   \<and> map_sum id token0
       (getTokenOrdering codeUnitCompare
          (TokenKey \<lparr>collection = ''GALA|Unit'', category = ''none'', type = ''none'',
                     additionalKey = ''x''\<rparr>)
          (TokenKey \<lparr>collection = ''GALA'', category = ''Unit|none'', type = ''none'',
                     additionalKey = ''x''\<rparr>)
          False (Some ''X'') (Some ''P''))
     = Inr (TokenKey \<lparr>collection = ''GALA'', category = ''Unit|none'', type = ''none'',
                       additionalKey = ''x''\<rparr>)
   \<and> map_sum id token0
       (getTokenOrdering codeUnitCompare
          (TokenKey \<lparr>collection = ''GALA'', category = ''Unit|none'', type = ''none'',
                     additionalKey = ''x''\<rparr>)
          (TokenKey \<lparr>collection = ''GALA|Unit'', category = ''none'', type = ''none'',
                     additionalKey = ''x''\<rparr>)
          False (Some ''P'') (Some ''X''))
     = Inr (TokenKey \<lparr>collection = ''GALA|Unit'', category = ''none'', type = ''none'',
                       additionalKey = ''x''\<rparr>)"
  by (simp add: getTokenOrdering_def compareTokens_def stringifyTokenClassKey_def)

text \<open>
  C7, amended: for every pair of tokens whose canonical strings do not collate equal,
  under a collation that is antisymmetric, non-strict ordering succeeds in both argument
  orders with the same \<open>token0\<close> and \<open>token1\<close>, \<open>token0\<close> canonically precedes
  \<open>token1\<close>, \<open>zeroForOne\<close> is true iff the first argument canonically precedes the second,
  and each attribute value stays with the token it was passed with.
\<close>

theorem getTokenOrdering_nonstrict:
  assumes antisym: "\<forall>x y. (lc x y < 0) = (0 < lc y x)"
      and ne: "compareTokens lc a b \<noteq> 0"
  shows "\<exists>r. getTokenOrdering lc a b False da db = Inr r
             \<and> getTokenOrdering lc b a False db da = Inr (r\<lparr>zeroForOne := \<not> zeroForOne r\<rparr>)
             \<and> compareTokens lc (token0 r) (token1 r) < 0
             \<and> zeroForOne r = (compareTokens lc a b < 0)
             \<and> ((token0 r = a \<and> token0Attributes r = da \<and> token1 r = b \<and> token1Attributes r = db)
                \<or> (token0 r = b \<and> token0Attributes r = db \<and> token1 r = a \<and> token1Attributes r = da))"
proof (cases "compareTokens lc a b < 0")
  case True
  with antisym have "\<not> compareTokens lc b a < 0"
    unfolding compareTokens_def by (metis less_asym)
  with True show ?thesis
    by (simp add: getTokenOrdering_def)
next
  case False
  with ne have "0 < compareTokens lc a b" by simp
  with antisym have "compareTokens lc b a < 0"
    unfolding compareTokens_def by simp
  with False show ?thesis
    by (simp add: getTokenOrdering_def)
qed

theorem getTokenOrdering_nonstrict_witness:
  "(\<forall>x y. (codeUnitCompare x y < 0) = (0 < codeUnitCompare y x))
   \<and> compareTokens codeUnitCompare (TokenString ''Z|Unit|none|none'')
        (TokenString ''A|Unit|none|none'') \<noteq> 0
   \<and> getTokenOrdering codeUnitCompare (TokenString ''Z|Unit|none|none'')
        (TokenString ''A|Unit|none|none'') False (Some ''XY'') (Some ''PQ'')
      = Inr \<lparr>token0 = TokenString ''A|Unit|none|none'', token1 = TokenString ''Z|Unit|none|none'',
             zeroForOne = False, token0Attributes = Some ''PQ'', token1Attributes = Some ''XY''\<rparr>
   \<and> getTokenOrdering codeUnitCompare (TokenString ''A|Unit|none|none'')
        (TokenString ''Z|Unit|none|none'') False (Some ''PQ'') (Some ''XY'')
      = Inr \<lparr>token0 = TokenString ''A|Unit|none|none'', token1 = TokenString ''Z|Unit|none|none'',
             zeroForOne = True, token0Attributes = Some ''PQ'', token1Attributes = Some ''XY''\<rparr>"
proof -
  have antisym: "\<forall>x y. (codeUnitCompare x y < 0) = (0 < codeUnitCompare y x)"
    using codeUnitCompare_antisym by blast
  have ne: "compareTokens codeUnitCompare (TokenString ''Z|Unit|none|none'')
        (TokenString ''A|Unit|none|none'') \<noteq> 0"
    by (simp add: compareTokens_def stringifyTokenClassKey_def)
  have pos: "\<not> compareTokens codeUnitCompare (TokenString ''Z|Unit|none|none'')
        (TokenString ''A|Unit|none|none'') < 0"
    by (simp add: compareTokens_def stringifyTokenClassKey_def)
  from getTokenOrdering_nonstrict [OF antisym ne, of "Some ''XY''" "Some ''PQ''"]
  obtain r where r1: "getTokenOrdering codeUnitCompare (TokenString ''Z|Unit|none|none'')
        (TokenString ''A|Unit|none|none'') False (Some ''XY'') (Some ''PQ'') = Inr r"
    and r2: "getTokenOrdering codeUnitCompare (TokenString ''A|Unit|none|none'')
        (TokenString ''Z|Unit|none|none'') False (Some ''PQ'') (Some ''XY'')
        = Inr (r\<lparr>zeroForOne := \<not> zeroForOne r\<rparr>)"
    by blast
  have r: "r = \<lparr>token0 = TokenString ''A|Unit|none|none'', token1 = TokenString ''Z|Unit|none|none'',
             zeroForOne = False, token0Attributes = Some ''PQ'', token1Attributes = Some ''XY''\<rparr>"
    using r1 pos by (simp add: getTokenOrdering_def)
  show ?thesis using antisym ne r1 r2 r by simp
qed

section \<open>The transaction waiter: invariant\<close>

lemma setEnabled_fold: "setEnabled False w = (fold disableEntry (promiseInfoForTxId w) (w\<lparr>enabled := False\<rparr>))\<lparr>promiseInfoForTxId := []\<rparr>"
  by (simp add: setEnabled_def disableEntry_def)

lemma disableEntry_simps [simp]:
  "enabled (disableEntry e s) = enabled s"
  "promiseInfoForTxId (disableEntry e s) = promiseInfoForTxId s"
  "nextTimeoutId (disableEntry e s) = nextTimeoutId s"
  "settlements (disableEntry e s) = settlements s @ [promise (snd e)]"
  "timers (disableEntry e s) = AList.delete (timeoutId (snd e)) (timers s)"
  "length (promises (disableEntry e s)) = length (promises s)"
  by (cases e; simp add: disableEntry_def reject_def settle_def clearTimeout_def)+

lemma fold_disable_simps [simp]:
  "enabled (fold disableEntry es s) = enabled s"
  "promiseInfoForTxId (fold disableEntry es s) = promiseInfoForTxId s"
  "nextTimeoutId (fold disableEntry es s) = nextTimeoutId s"
  "settlements (fold disableEntry es s) = settlements s @ map (promise \<circ> snd) es"
  "length (promises (fold disableEntry es s)) = length (promises s)"
  by (induction es arbitrary: s; simp)+

lemma fold_disable_timers:
  "timers (fold disableEntry es s) = filter (\<lambda>(tid, x). tid \<notin> (timeoutId \<circ> snd) ` set es) (timers s)"
  by (induction es arbitrary: s) (auto simp: AList.delete_eq intro!: filter_cong)

lemma disableEntry_promises:
  "p < length (promises s) \<Longrightarrow>
   promises (disableEntry (t, i) s) ! p =
     (if promise i = p \<and> promises s ! p = Pending
      then Rejected (transactionWaitFailedError t [(''message'', JString ''Transaction waiter disabled'')])
      else promises s ! p)"
  by (auto simp: disableEntry_def reject_def settle_def clearTimeout_def nth_list_update)

lemma fold_disable_promises:
  "p < length (promises s) \<Longrightarrow>
   promises (fold disableEntry es s) ! p =
     (if promises s ! p = Pending then
        (case find (\<lambda>e. promise (snd e) = p) es of
           Some e \<Rightarrow> Rejected (transactionWaitFailedError (fst e) [(''message'', JString ''Transaction waiter disabled'')])
         | None \<Rightarrow> Pending)
      else promises s ! p)"
proof (induction es arbitrary: s)
  case Nil
  then show ?case by simp
next
  case (Cons e es)
  obtain t i where e: "e = (t, i)" by (cases e)
  from Cons.prems have p: "p < length (promises (disableEntry e s))" by simp
  show ?case
    using Cons.IH [OF p] Cons.prems
    by (simp add: e disableEntry_promises)
qed

lemma finish_simps [simp]:
  "enabled (finish txid info outcome w) = enabled w"
  "promiseInfoForTxId (finish txid info outcome w) = AList.delete txid (promiseInfoForTxId w)"
  "nextTimeoutId (finish txid info outcome w) = nextTimeoutId w"
  "settlements (finish txid info outcome w) = settlements w @ [promise info]"
  "timers (finish txid info outcome w) = AList.delete (timeoutId info) (timers w)"
  "length (promises (finish txid info outcome w)) = length (promises w)"
  by (simp_all add: finish_def settle_def clearTimeout_def)

lemma finish_promises:
  "promises (finish txid info outcome w) =
     (if promise info < length (promises w) \<and> promises w ! promise info = Pending
      then (promises w)[promise info := outcome] else promises w)"
  by (simp add: finish_def settle_def clearTimeout_def)

lemma waiterInv_finish:
  assumes waiterInv: "waiterInv w" and live: "map_of (promiseInfoForTxId w) txid = Some info"
  shows "waiterInv (finish txid info outcome w)"
proof -
  let ?w = "finish txid info outcome w"
  from waiterInv have dist: "distinct (map fst (promiseInfoForTxId w))"
    and ent: "\<And>t i. map_of (promiseInfoForTxId w) t = Some i \<Longrightarrow>
         promise i < length (promises w) \<and> promises w ! promise i = Pending
         \<and> promise i \<notin> set (settlements w)
         \<and> (\<exists>ms. map_of (timers w) (timeoutId i) = Some (t, ms))"
    and uniq: "\<And>t1 t2 i1 i2. map_of (promiseInfoForTxId w) t1 = Some i1 \<Longrightarrow>
          map_of (promiseInfoForTxId w) t2 = Some i2 \<Longrightarrow> promise i1 = promise i2 \<Longrightarrow> t1 = t2"
    and tim: "\<And>tid t ms. map_of (timers w) tid = Some (t, ms) \<Longrightarrow>
         tid < nextTimeoutId w
         \<and> (\<exists>i. map_of (promiseInfoForTxId w) t = Some i \<and> timeoutId i = tid)"
    and setl: "\<And>p. p \<in> set (settlements w) \<Longrightarrow> p < length (promises w)"
    and en: "\<not> enabled w \<Longrightarrow> promiseInfoForTxId w = []"
    unfolding waiterInv_def by blast+
  have 1: "distinct (map fst (promiseInfoForTxId ?w))"
    using dist by (simp add: distinct_delete)
  have 2: "promise i < length (promises ?w) \<and> promises ?w ! promise i = Pending
         \<and> promise i \<notin> set (settlements ?w)
         \<and> (\<exists>ms. map_of (timers ?w) (timeoutId i) = Some (t, ms))"
    if "map_of (promiseInfoForTxId ?w) t = Some i" for t i
  proof -
    from that have ne: "t \<noteq> txid" and old: "map_of (promiseInfoForTxId w) t = Some i"
      by (auto simp: delete_conv' split: if_splits)
    from uniq [OF old live] ne have pne: "promise i \<noteq> promise info" by blast
    from ent [OF old] obtain ms where ms: "map_of (timers w) (timeoutId i) = Some (t, ms)" by blast
    from ent [OF live] obtain ms' where ms': "map_of (timers w) (timeoutId info) = Some (txid, ms')" by blast
    from ms ms' ne have tne: "timeoutId i \<noteq> timeoutId info" by auto
    show ?thesis
      using ent [OF old] pne tne ms by (simp add: finish_promises delete_conv')
  qed
  have 3: "t1 = t2" if "map_of (promiseInfoForTxId ?w) t1 = Some i1"
      "map_of (promiseInfoForTxId ?w) t2 = Some i2" "promise i1 = promise i2" for t1 t2 i1 i2
    using that uniq [of t1 i1 t2 i2] by (auto simp: delete_conv' split: if_splits)
  have 4: "tid < nextTimeoutId ?w
         \<and> (\<exists>i. map_of (promiseInfoForTxId ?w) t = Some i \<and> timeoutId i = tid)"
    if "map_of (timers ?w) tid = Some (t, ms)" for tid t ms
  proof -
    from that have tne: "tid \<noteq> timeoutId info" and old: "map_of (timers w) tid = Some (t, ms)"
      by (auto simp: delete_conv' split: if_splits)
    from tim [OF old] obtain i where i: "map_of (promiseInfoForTxId w) t = Some i" "timeoutId i = tid"
      and lt: "tid < nextTimeoutId w" by blast
    from i tne live have "t \<noteq> txid" by auto
    with i lt show ?thesis by (auto simp: delete_conv')
  qed
  have 5: "p < length (promises ?w)" if "p \<in> set (settlements ?w)" for p
    using that setl ent [OF live] by auto
  have 6: "promiseInfoForTxId ?w = []" if "\<not> enabled ?w"
    using that en live by auto
  show ?thesis
    unfolding waiterInv_def using 1 2 3 4 5 6 by blast
qed

lemma timeoutCallback_finish:
  "map_of (promiseInfoForTxId w) txid = Some info \<Longrightarrow>
   timeoutCallback txid (clearTimeout (timeoutId info) w) =
     finish txid info
       (if waited info then Rejected (transactionWaitTimeoutError txid)
        else Fulfilled \<lparr>Data = [], txId = txid, transactionHash = txid\<rparr>) w"
  by (simp add: timeoutCallback_def finish_def clearTimeout_def reject_def resolve_def settle_def Let_def)

lemma notifySuccess_finish:
  "map_of (promiseInfoForTxId w) txid = Some info \<Longrightarrow>
   notifySuccess txid dat w =
     finish txid info
       (Fulfilled \<lparr>Data = Data dat, txId = txid, transactionHash = transactionId dat\<rparr>) w"
  by (simp add: notifySuccess_def finish_def clearTimeout_def reject_def resolve_def settle_def Let_def)

lemma notifyFailure_finish:
  "map_of (promiseInfoForTxId w) txid = Some info \<Longrightarrow>
   notifyFailure txid detail w =
     finish txid info
       (if waited info then Rejected (transactionWaitFailedError txid detail)
        else Fulfilled \<lparr>Data = [], txId = txid, transactionHash = txid\<rparr>) w"
  by (simp add: notifyFailure_def finish_def clearTimeout_def reject_def resolve_def settle_def Let_def)

lemma fireTimer_finish:
  assumes "waiterInv w" and "map_of (promiseInfoForTxId w) txid = Some info"
  shows "fireTimer (timeoutId info) w =
     finish txid info
       (if waited info then Rejected (transactionWaitTimeoutError txid)
        else Fulfilled \<lparr>Data = [], txId = txid, transactionHash = txid\<rparr>) w"
proof -
  from assms obtain ms where "map_of (timers w) (timeoutId info) = Some (txid, ms)"
    unfolding waiterInv_def by blast
  then show ?thesis
    using timeoutCallback_finish [OF assms(2)] by (simp add: fireTimer_def)
qed

lemma fireTimer_cases:
  assumes "waiterInv w"
  shows "fireTimer tid w = w \<and> map_of (timers w) tid = None
       \<or> (\<exists>txid info. map_of (promiseInfoForTxId w) txid = Some info \<and> timeoutId info = tid
             \<and> fireTimer tid w = finish txid info
                 (if waited info then Rejected (transactionWaitTimeoutError txid)
                  else Fulfilled \<lparr>Data = [], txId = txid, transactionHash = txid\<rparr>) w)"
proof (cases "map_of (timers w) tid")
  case None
  then show ?thesis by (simp add: fireTimer_def)
next
  case (Some a)
  obtain txid ms where a: "a = (txid, ms)" by (cases a)
  from assms Some a obtain info where
    i: "map_of (promiseInfoForTxId w) txid = Some info" "timeoutId info = tid"
    unfolding waiterInv_def by blast
  from fireTimer_finish [OF assms i(1)] i show ?thesis by auto
qed

lemma waiterInv_register:
  assumes inv: "waiterInv w" and reg: "registerTxId txid ms w = Inr w'"
  shows "waiterInv w'"
proof (cases "enabled w")
  case False
  with reg have "w' = w" by (simp add: registerTxId_def split: if_splits)
  with inv show ?thesis by simp
next
  case True
  from reg have fresh: "map_of (promiseInfoForTxId w) txid = None"
    by (simp add: registerTxId_def split: if_splits)
  define p where "p = length (promises w)"
  define tid where "tid = nextTimeoutId w"
  define info where "info = \<lparr>promise = p, waited = False, timeoutId = tid\<rparr>"
  from reg True fresh have w': "w' = w\<lparr>promises := promises w @ [Pending],
                  timers := AList.update tid (txid, ms) (timers w),
                  nextTimeoutId := Suc tid,
                  promiseInfoForTxId := AList.update txid info (promiseInfoForTxId w)\<rparr>"
    by (simp add: registerTxId_def Let_def p_def tid_def info_def)
  from inv have dist: "distinct (map fst (promiseInfoForTxId w))"
    and ent: "\<And>t i. map_of (promiseInfoForTxId w) t = Some i \<Longrightarrow>
         promise i < length (promises w) \<and> promises w ! promise i = Pending
         \<and> promise i \<notin> set (settlements w)
         \<and> (\<exists>ms. map_of (timers w) (timeoutId i) = Some (t, ms))"
    and uniq: "\<And>t1 t2 i1 i2. map_of (promiseInfoForTxId w) t1 = Some i1 \<Longrightarrow>
          map_of (promiseInfoForTxId w) t2 = Some i2 \<Longrightarrow> promise i1 = promise i2 \<Longrightarrow> t1 = t2"
    and tim: "\<And>tid t ms. map_of (timers w) tid = Some (t, ms) \<Longrightarrow>
         tid < nextTimeoutId w
         \<and> (\<exists>i. map_of (promiseInfoForTxId w) t = Some i \<and> timeoutId i = tid)"
    and setl: "\<And>p. p \<in> set (settlements w) \<Longrightarrow> p < length (promises w)"
    unfolding waiterInv_def by blast+
  have notim: "map_of (timers w) tid = None"
  proof (cases "map_of (timers w) tid")
    case (Some a)
    then show ?thesis using tim [of tid "fst a" "snd a"] by (simp add: tid_def)
  qed simp
  have 1: "distinct (map fst (promiseInfoForTxId w'))"
    using dist by (simp add: w' distinct_update)
  have 2: "promise i < length (promises w') \<and> promises w' ! promise i = Pending
         \<and> promise i \<notin> set (settlements w')
         \<and> (\<exists>ms. map_of (timers w') (timeoutId i) = Some (t, ms))"
    if "map_of (promiseInfoForTxId w') t = Some i" for t i
  proof (cases "t = txid")
    case True
    with that have "i = info" by (simp add: w' update_conv')
    then show ?thesis using setl True
      by (auto simp: w' info_def p_def update_conv')
  next
    case False
    with that have old: "map_of (promiseInfoForTxId w) t = Some i" by (simp add: w' update_conv')
    from ent [OF old] obtain m where m: "map_of (timers w) (timeoutId i) = Some (t, m)" by blast
    with notim have "timeoutId i \<noteq> tid" by auto
    with ent [OF old] m show ?thesis
      by (simp add: w' update_conv' nth_append)
  qed
  have 3: "t1 = t2" if "map_of (promiseInfoForTxId w') t1 = Some i1"
      "map_of (promiseInfoForTxId w') t2 = Some i2" "promise i1 = promise i2" for t1 t2 i1 i2
  proof -
    have old: "promise i \<noteq> p" if "map_of (promiseInfoForTxId w) t = Some i" for t i
      using ent [OF that] by (simp add: p_def)
    show ?thesis
      using that uniq [of t1 i1 t2 i2] old [of t1 i1] old [of t2 i2]
      by (auto simp: w' update_conv' info_def split: if_splits)
  qed
  have 4: "n < nextTimeoutId w'
         \<and> (\<exists>i. map_of (promiseInfoForTxId w') t = Some i \<and> timeoutId i = n)"
    if "map_of (timers w') n = Some (t, m)" for n t m
  proof (cases "n = tid")
    case True
    with that have "t = txid" by (simp add: w' update_conv')
    with True show ?thesis by (simp add: w' update_conv' info_def)
  next
    case False
    with that have old: "map_of (timers w) n = Some (t, m)" by (simp add: w' update_conv')
    from tim [OF old] obtain i where i: "map_of (promiseInfoForTxId w) t = Some i" "timeoutId i = n"
      and lt: "n < nextTimeoutId w" by blast
    from i fresh have "t \<noteq> txid" by auto
    with i lt show ?thesis by (simp add: w' update_conv' tid_def)
  qed
  have 5: "q < length (promises w')" if "q \<in> set (settlements w')" for q
    using that setl [of q] by (simp add: w')
  have 6: "promiseInfoForTxId w' = []" if "\<not> enabled w'"
    using that True by (simp add: w')
  show ?thesis
    unfolding waiterInv_def using 1 2 3 4 5 6 by blast
qed

lemma waiterInv_wait:
  assumes inv: "waiterInv w" and wt: "wait txid w = Inr (p, w')"
  shows "waiterInv w'"
proof -
  from wt obtain info where live: "map_of (promiseInfoForTxId w) txid = Some info"
    and w': "w' = w\<lparr>promiseInfoForTxId :=
                    AList.update txid (info\<lparr>waited := True\<rparr>) (promiseInfoForTxId w)\<rparr>"
    by (auto simp: wait_def split: option.splits)
  from inv have dist: "distinct (map fst (promiseInfoForTxId w))"
    and ent: "\<And>t i. map_of (promiseInfoForTxId w) t = Some i \<Longrightarrow>
         promise i < length (promises w) \<and> promises w ! promise i = Pending
         \<and> promise i \<notin> set (settlements w)
         \<and> (\<exists>ms. map_of (timers w) (timeoutId i) = Some (t, ms))"
    and uniq: "\<And>t1 t2 i1 i2. map_of (promiseInfoForTxId w) t1 = Some i1 \<Longrightarrow>
          map_of (promiseInfoForTxId w) t2 = Some i2 \<Longrightarrow> promise i1 = promise i2 \<Longrightarrow> t1 = t2"
    and tim: "\<And>tid t ms. map_of (timers w) tid = Some (t, ms) \<Longrightarrow>
         tid < nextTimeoutId w
         \<and> (\<exists>i. map_of (promiseInfoForTxId w) t = Some i \<and> timeoutId i = tid)"
    and setl: "\<And>p. p \<in> set (settlements w) \<Longrightarrow> p < length (promises w)"
    and en: "\<not> enabled w \<Longrightarrow> promiseInfoForTxId w = []"
    unfolding waiterInv_def by blast+
  have 1: "distinct (map fst (promiseInfoForTxId w'))"
    using dist by (simp add: w' distinct_update)
  have old: "\<exists>i0. map_of (promiseInfoForTxId w) t = Some i0 \<and> promise i0 = promise i
               \<and> timeoutId i0 = timeoutId i"
    if "map_of (promiseInfoForTxId w') t = Some i" for t i
  proof (cases "t = txid")
    case True
    with that have "i = info\<lparr>waited := True\<rparr>" by (simp add: w' update_conv')
    with True live show ?thesis by simp
  next
    case False
    with that show ?thesis by (simp add: w' update_conv')
  qed
  have new: "\<exists>i. map_of (promiseInfoForTxId w') t = Some i \<and> timeoutId i = timeoutId i0"
    if "map_of (promiseInfoForTxId w) t = Some i0" for t i0
  proof (cases "t = txid")
    case True
    with that live have "i0 = info" by simp
    with True show ?thesis by (simp add: w' update_conv')
  next
    case False
    with that show ?thesis by (simp add: w' update_conv')
  qed
  have same: "promises w' = promises w" "settlements w' = settlements w" "timers w' = timers w"
    "nextTimeoutId w' = nextTimeoutId w" "enabled w' = enabled w"
    by (simp_all add: w')
  have 2: "promise i < length (promises w') \<and> promises w' ! promise i = Pending
         \<and> promise i \<notin> set (settlements w')
         \<and> (\<exists>ms. map_of (timers w') (timeoutId i) = Some (t, ms))"
    if "map_of (promiseInfoForTxId w') t = Some i" for t i
  proof -
    from old [OF that] obtain i0 where i0: "map_of (promiseInfoForTxId w) t = Some i0"
      "promise i0 = promise i" "timeoutId i0 = timeoutId i" by blast
    from ent [OF i0(1)] i0(2,3) show ?thesis by (simp add: same)
  qed
  have 3: "t1 = t2" if "map_of (promiseInfoForTxId w') t1 = Some i1"
      "map_of (promiseInfoForTxId w') t2 = Some i2" "promise i1 = promise i2" for t1 t2 i1 i2
  proof -
    from old [OF that(1)] obtain j1 where j1: "map_of (promiseInfoForTxId w) t1 = Some j1"
      "promise j1 = promise i1" by blast
    from old [OF that(2)] obtain j2 where j2: "map_of (promiseInfoForTxId w) t2 = Some j2"
      "promise j2 = promise i2" by blast
    from uniq [OF j1(1) j2(1)] j1(2) j2(2) that(3) show ?thesis by simp
  qed
  have 4: "n < nextTimeoutId w'
         \<and> (\<exists>i. map_of (promiseInfoForTxId w') t = Some i \<and> timeoutId i = n)"
    if "map_of (timers w') n = Some (t, m)" for n t m
  proof -
    from that have "map_of (timers w) n = Some (t, m)" by (simp add: same)
    from tim [OF this] obtain i0 where lt: "n < nextTimeoutId w"
      and i0: "map_of (promiseInfoForTxId w) t = Some i0" "timeoutId i0 = n" by blast
    from new [OF i0(1)] i0(2) lt show ?thesis by (auto simp: same)
  qed
  have 5: "q < length (promises w')" if "q \<in> set (settlements w')" for q
    using that setl [of q] by (simp add: same)
  have 6: "promiseInfoForTxId w' = []" if "\<not> enabled w'"
    using that en live by (auto simp: same)
  show ?thesis
    unfolding waiterInv_def using 1 2 3 4 5 6 by blast
qed

lemma waiterInv_setEnabled:
  assumes inv: "waiterInv w"
  shows "waiterInv (setEnabled flag w)"
proof (cases flag)
  case True
  with inv show ?thesis
    by (simp add: setEnabled_def waiterInv_def del: map_of_eq_Some_iff)
next
  case False
  let ?w = "setEnabled False w"
  have ents: "promiseInfoForTxId ?w = []" by (simp add: setEnabled_fold)
  have tims: "timers ?w = []"
  proof -
    have "tid \<in> (timeoutId \<circ> snd) ` set (promiseInfoForTxId w)"
      if "(tid, x) \<in> set (timers w)" for tid x
    proof -
      from that obtain y where "map_of (timers w) tid = Some y"
        by (metis weak_map_of_SomeI)
      then obtain t m where "map_of (timers w) tid = Some (t, m)" by (cases y) auto
      with inv obtain i where "map_of (promiseInfoForTxId w) t = Some i" "timeoutId i = tid"
        unfolding waiterInv_def by blast
      then show ?thesis
        by (force dest: map_of_SomeD)
    qed
    then show ?thesis
      by (auto simp: setEnabled_fold fold_disable_timers filter_empty_conv)
  qed
  have setl: "p < length (promises ?w)" if "p \<in> set (settlements ?w)" for p
  proof -
    from that have "p \<in> set (settlements w) \<or> p \<in> (promise \<circ> snd) ` set (promiseInfoForTxId w)"
      by (auto simp: setEnabled_fold)
    then show ?thesis
    proof
      assume "p \<in> set (settlements w)"
      with inv show ?thesis unfolding waiterInv_def by (simp add: setEnabled_fold)
    next
      assume "p \<in> (promise \<circ> snd) ` set (promiseInfoForTxId w)"
      then obtain t i where ti: "(t, i) \<in> set (promiseInfoForTxId w)" "promise i = p" by auto
      from inv have "distinct (map fst (promiseInfoForTxId w))" unfolding waiterInv_def by blast
      with ti have "map_of (promiseInfoForTxId w) t = Some i" by simp
      with inv ti show ?thesis unfolding waiterInv_def by (auto simp: setEnabled_fold)
    qed
  qed
  show ?thesis
    unfolding waiterInv_def using False ents tims setl by simp
qed

lemma waiterInv_new: "waiterInv newTransactionWaiter"
  by (simp add: waiterInv_def newTransactionWaiter_def)

lemma waiterInv_step: "waiterInv w \<Longrightarrow> waiterInv (step e w)"
proof (induction e w rule: step.induct)
  case (1 flag w)
  then show ?case by (simp add: waiterInv_setEnabled)
next
  case (2 txid timeoutMs w)
  then show ?case by (auto split: sum.splits intro: waiterInv_register)
next
  case (3 txid w)
  then show ?case by (auto split: sum.splits intro: waiterInv_wait)
next
  case (4 txid dat w)
  then show ?case
    by (cases "map_of (promiseInfoForTxId w) txid")
       (simp_all add: notifySuccess_finish waiterInv_finish, simp add: notifySuccess_def)
next
  case (5 txid detail w)
  then show ?case
    by (cases "map_of (promiseInfoForTxId w) txid")
       (simp_all add: notifyFailure_finish waiterInv_finish, simp add: notifyFailure_def)
next
  case (6 tid w)
  then show ?case
    using fireTimer_cases [of w tid] by (auto simp: waiterInv_finish)
qed

lemma reachable_waiterInv: "reachable w \<Longrightarrow> waiterInv w"
  by (induction rule: reachable.induct) (simp_all add: waiterInv_new waiterInv_step)

section \<open>The transaction waiter: outcomes\<close>

lemma reachable_run: "reachable w \<Longrightarrow> reachable (run evs w)"
  by (induction evs arbitrary: w) (simp_all add: reachable_step)

lemma fold_update_map_of:
  "distinct (map fst xs) \<Longrightarrow>
   map_of (fold (\<lambda>(k, v). AList.update k v) xs base) k =
     (case map_of xs k of Some v \<Rightarrow> Some v | None \<Rightarrow> map_of base k)"
proof (induction xs arbitrary: base)
  case Nil
  then show ?case by simp
next
  case (Cons x xs)
  obtain k0 v0 where x: "x = (k0, v0)" by (cases x)
  from Cons.prems x have nin: "map_of xs k0 = None" and d: "distinct (map fst xs)"
    by (auto simp: map_of_eq_None_iff)
  show ?case
    using Cons.IH [OF d, of "AList.update k0 v0 base"] nin
    by (auto simp: x update_conv' split: option.splits)
qed

lemma transactionWaitFailedError_details:
  assumes "distinct (map fst detail)" and "k \<noteq> ''transactionId''"
    and "map_of detail k = Some v"
  shows "\<exists>ds. details (transactionWaitFailedError txid detail) = Some ds \<and> map_of ds k = Some v"
proof -
  have d: "distinct (map fst (AList.delete ''transactionId'' detail))"
    using assms(1) by (simp add: distinct_delete)
  have "map_of (AList.delete ''transactionId'' detail) k = Some v"
    using assms(2,3) by (simp add: delete_conv')
  then show ?thesis
    by (simp add: transactionWaitFailedError_def Let_def fold_update_map_of [OF d])
qed

lemma transactionWaitFailedError_hash:
  assumes "distinct (map fst detail)" and "map_of detail ''transactionId'' = Some (JString h)"
    and "map_of detail ''transactionHash'' = None"
  shows "\<exists>ds. details (transactionWaitFailedError txid detail) = Some ds
           \<and> map_of ds ''transactionHash'' = Some (JString h)"
proof -
  have d: "distinct (map fst (AList.delete ''transactionId'' detail))"
    using assms(1) by (simp add: distinct_delete)
  have "map_of (AList.delete ''transactionId'' detail) ''transactionHash'' = None"
    using assms(3) by (simp add: delete_conv')
  then show ?thesis
    using assms(2)
    by (simp add: transactionWaitFailedError_def Let_def fold_update_map_of [OF d])
qed

lemma finish_outcome:
  assumes "waiterInv w" and "map_of (promiseInfoForTxId w) txid = Some info"
  shows "promises (finish txid info outcome w) ! promise info = outcome"
proof -
  from assms have "promise info < length (promises w)" "promises w ! promise info = Pending"
    unfolding waiterInv_def by blast+
  then show ?thesis by (simp add: finish_promises)
qed

lemma twoPending_eval:
  "twoPending =
     \<lparr>enabled = True,
      promiseInfoForTxId =
        [(''tx1'', \<lparr>promise = 0, waited = False, timeoutId = 0\<rparr>),
         (''tx2'', \<lparr>promise = 1, waited = True, timeoutId = 1\<rparr>)],
      promises = [Pending, Pending], settlements = [],
      timers = [(0, ''tx1'', 30000), (1, ''tx2'', 30000)], nextTimeoutId = 2\<rparr>"
  by (simp add: twoPending_def newTransactionWaiter_def setEnabled_def registerTxId_def
        wait_def Let_def)

lemma reachable_twoPending: "reachable twoPending"
  unfolding twoPending_def by (rule reachable_run) (rule reachable_new)

text \<open>
  C1. For every tracking id with a live entry in a reachable waiter, the promise of the entry
  is pending, and: if the timer of the entry fires or a failure notification arrives while
  \<open>waited\<close> is still false, the promise is fulfilled with the best-effort result that
  echoes the tracking id (\<open>transactionHash\<close> equal to the id, empty \<open>Data\<close>); if
  \<open>waited\<close> is true, the timer rejects it with \<open>TRANSACTION_WAIT_TIMEOUT\<close> and the
  failure notification rejects it with \<open>TRANSACTION_WAIT_FAILED\<close>, whose details carry
  every key of the remote detail other than \<open>transactionId\<close>. Calling \<open>wait\<close> is what
  sets \<open>waited\<close>.
\<close>

theorem unawaited_resolution_policy:
  assumes "reachable w" and "map_of (promiseInfoForTxId w) txid = Some info"
    and "distinct (map fst detail)"
  shows "promises w ! promise info = Pending
       \<and> promises (fireTimer (timeoutId info) w) ! promise info =
           (if waited info then Rejected (transactionWaitTimeoutError txid)
            else Fulfilled \<lparr>Data = [], txId = txid, transactionHash = txid\<rparr>)
       \<and> promises (notifyFailure txid detail w) ! promise info =
           (if waited info then Rejected (transactionWaitFailedError txid detail)
            else Fulfilled \<lparr>Data = [], txId = txid, transactionHash = txid\<rparr>)
       \<and> code (transactionWaitTimeoutError txid) = ''TRANSACTION_WAIT_TIMEOUT''
       \<and> code (transactionWaitFailedError txid detail) = ''TRANSACTION_WAIT_FAILED''
       \<and> (\<forall>k v. k \<noteq> ''transactionId'' \<and> map_of detail k = Some v \<longrightarrow>
             (\<exists>ds. details (transactionWaitFailedError txid detail) = Some ds
                    \<and> map_of ds k = Some v))
       \<and> (\<exists>w'. wait txid w = Inr (promise info, w')
                \<and> map_of (promiseInfoForTxId w') txid = Some (info\<lparr>waited := True\<rparr>))"
proof -
  from assms(1) have inv: "waiterInv w" by (rule reachable_waiterInv)
  from inv assms(2) have 1: "promises w ! promise info = Pending"
    unfolding waiterInv_def by blast
  have 2: "promises (fireTimer (timeoutId info) w) ! promise info =
           (if waited info then Rejected (transactionWaitTimeoutError txid)
            else Fulfilled \<lparr>Data = [], txId = txid, transactionHash = txid\<rparr>)"
    by (simp only: fireTimer_finish [OF inv assms(2)] finish_outcome [OF inv assms(2)])
  have 3: "promises (notifyFailure txid detail w) ! promise info =
           (if waited info then Rejected (transactionWaitFailedError txid detail)
            else Fulfilled \<lparr>Data = [], txId = txid, transactionHash = txid\<rparr>)"
    by (simp only: notifyFailure_finish [OF assms(2)] finish_outcome [OF inv assms(2)])
  have 4: "code (transactionWaitTimeoutError txid) = ''TRANSACTION_WAIT_TIMEOUT''"
    by (simp add: transactionWaitTimeoutError_def)
  have 5: "code (transactionWaitFailedError txid detail) = ''TRANSACTION_WAIT_FAILED''"
    by (simp add: transactionWaitFailedError_def Let_def)
  have 6: "\<forall>k v. k \<noteq> ''transactionId'' \<and> map_of detail k = Some v \<longrightarrow>
             (\<exists>ds. details (transactionWaitFailedError txid detail) = Some ds
                    \<and> map_of ds k = Some v)"
    using transactionWaitFailedError_details [OF assms(3)] by blast
  have 7: "\<exists>w'. wait txid w = Inr (promise info, w')
                \<and> map_of (promiseInfoForTxId w') txid = Some (info\<lparr>waited := True\<rparr>)"
    using assms(2) by (simp add: wait_def update_conv')
  from 1 2 3 4 5 6 7 show ?thesis by blast
qed

theorem unawaited_resolution_policy_witness:
  "promises (fireTimer 0 twoPending) ! 0 =
     Fulfilled \<lparr>Data = [], txId = ''tx1'', transactionHash = ''tx1''\<rparr>
   \<and> promises (notifyFailure ''tx1'' [(''message'', JString ''rejected by chain'')] twoPending) ! 0 =
     Fulfilled \<lparr>Data = [], txId = ''tx1'', transactionHash = ''tx1''\<rparr>
   \<and> promises (fireTimer 1 twoPending) ! 1 = Rejected (transactionWaitTimeoutError ''tx2'')
   \<and> promises (notifyFailure ''tx2'' [(''message'', JString ''rejected by chain'')] twoPending) ! 1 =
     Rejected (transactionWaitFailedError ''tx2'' [(''message'', JString ''rejected by chain'')])
   \<and> details (transactionWaitFailedError ''tx2'' [(''message'', JString ''rejected by chain'')]) =
     Some [(''txId'', JString ''tx2''), (''transactionHash'', JUndefined),
           (''message'', JString ''rejected by chain'')]"
proof -
  have e1: "map_of (promiseInfoForTxId twoPending) ''tx1'' =
              Some \<lparr>promise = 0, waited = False, timeoutId = 0\<rparr>"
    by (simp add: twoPending_eval)
  have e2: "map_of (promiseInfoForTxId twoPending) ''tx2'' =
              Some \<lparr>promise = 1, waited = True, timeoutId = 1\<rparr>"
    by (simp add: twoPending_eval)
  have d: "distinct (map fst [(''message'', JString ''rejected by chain'')])" by simp
  have 3: "details (transactionWaitFailedError ''tx2'' [(''message'', JString ''rejected by chain'')]) =
     Some [(''txId'', JString ''tx2''), (''transactionHash'', JUndefined),
           (''message'', JString ''rejected by chain'')]"
    by (simp add: transactionWaitFailedError_def)
  from unawaited_resolution_policy [OF reachable_twoPending e1 d]
       unawaited_resolution_policy [OF reachable_twoPending e2 d] 3
  show ?thesis by simp
qed

lemma count_list_distinct: "distinct xs \<Longrightarrow> x \<in> set xs \<Longrightarrow> count_list xs x = 1"
  by (induction xs) auto

lemma waiterInv_distinct_promises:
  assumes inv: "waiterInv w"
  shows "distinct (map (promise \<circ> snd) (promiseInfoForTxId w))"
proof -
  from inv have dist: "distinct (map fst (promiseInfoForTxId w))"
    and uniq: "\<And>t1 t2 i1 i2. map_of (promiseInfoForTxId w) t1 = Some i1 \<Longrightarrow>
          map_of (promiseInfoForTxId w) t2 = Some i2 \<Longrightarrow> promise i1 = promise i2 \<Longrightarrow> t1 = t2"
    unfolding waiterInv_def by blast+
  from dist have d: "distinct (promiseInfoForTxId w)" by (simp add: distinct_map)
  have "inj_on (promise \<circ> snd) (set (promiseInfoForTxId w))"
  proof (rule inj_onI)
    fix x y
    assume x: "x \<in> set (promiseInfoForTxId w)" and y: "y \<in> set (promiseInfoForTxId w)"
      and eq: "(promise \<circ> snd) x = (promise \<circ> snd) y"
    from x dist have mx: "map_of (promiseInfoForTxId w) (fst x) = Some (snd x)" by simp
    from y dist have my: "map_of (promiseInfoForTxId w) (fst y) = Some (snd y)" by simp
    from uniq [OF mx my] eq have "fst x = fst y" by simp
    with mx my show "x = y" by (simp add: prod_eq_iff)
  qed
  with d show ?thesis by (simp add: distinct_map)
qed

lemma setEnabled_False_timers:
  assumes inv: "waiterInv w"
  shows "timers (setEnabled False w) = []"
proof -
  have inv': "waiterInv (setEnabled False w)" using inv by (rule waiterInv_setEnabled)
  have ents: "promiseInfoForTxId (setEnabled False w) = []" by (simp add: setEnabled_fold)
  have "map_of (timers (setEnabled False w)) tid = None" for tid
  proof (cases "map_of (timers (setEnabled False w)) tid")
    case (Some a)
    with inv' ents show ?thesis
      unfolding waiterInv_def by (cases a) fastforce
  qed simp
  then have "map_of (timers (setEnabled False w)) = Map.empty" by (rule ext)
  then show ?thesis by simp
qed

lemma setEnabled_False_promise:
  assumes inv: "waiterInv w" and live: "(txid, info) \<in> set (promiseInfoForTxId w)"
  shows "promises (setEnabled False w) ! promise info =
           Rejected (transactionWaitFailedError txid
                       [(''message'', JString ''Transaction waiter disabled'')])"
proof -
  from inv have dist: "distinct (map fst (promiseInfoForTxId w))"
    and ent: "\<And>t i. map_of (promiseInfoForTxId w) t = Some i \<Longrightarrow>
         promise i < length (promises w) \<and> promises w ! promise i = Pending"
    and uniq: "\<And>t1 t2 i1 i2. map_of (promiseInfoForTxId w) t1 = Some i1 \<Longrightarrow>
          map_of (promiseInfoForTxId w) t2 = Some i2 \<Longrightarrow> promise i1 = promise i2 \<Longrightarrow> t1 = t2"
    unfolding waiterInv_def by blast+
  from live dist have m: "map_of (promiseInfoForTxId w) txid = Some info" by simp
  from ent [OF m] have p: "promise info < length (promises (w\<lparr>enabled := False\<rparr>))"
    and pend: "promises (w\<lparr>enabled := False\<rparr>) ! promise info = Pending" by simp_all
  obtain e where f: "find (\<lambda>e. promise (snd e) = promise info) (promiseInfoForTxId w) = Some e"
    using live by (cases "find (\<lambda>e. promise (snd e) = promise info) (promiseInfoForTxId w)")
      (auto simp: find_None_iff)
  then have e: "e \<in> set (promiseInfoForTxId w)" "promise (snd e) = promise info"
    by (auto simp: find_Some_iff)
  from e(1) dist have "map_of (promiseInfoForTxId w) (fst e) = Some (snd e)" by simp
  from uniq [OF this m e(2)] have "fst e = txid" .
  with f pend show ?thesis
    by (simp add: setEnabled_fold fold_disable_promises [OF p])
qed

lemma setEnabled_False_count:
  assumes inv: "waiterInv w" and live: "(txid, info) \<in> set (promiseInfoForTxId w)"
  shows "count_list (settlements (setEnabled False w)) (promise info) = 1"
proof -
  from inv have dist: "distinct (map fst (promiseInfoForTxId w))"
    and ent: "\<And>t i. map_of (promiseInfoForTxId w) t = Some i \<Longrightarrow>
         promise i \<notin> set (settlements w)"
    unfolding waiterInv_def by blast+
  from live dist have m: "map_of (promiseInfoForTxId w) txid = Some info" by simp
  from live have "promise info \<in> set (map (promise \<circ> snd) (promiseInfoForTxId w))" by force
  with waiterInv_distinct_promises [OF inv]
  have "count_list (map (promise \<circ> snd) (promiseInfoForTxId w)) (promise info) = 1"
    by (rule count_list_distinct)
  with ent [OF m] show ?thesis by (simp add: setEnabled_fold)
qed

text \<open>
  C5. Disabling a reachable waiter (\<open>setEnabled(false)\<close>) leaves the map empty and no
  timer pending, and every one of its outstanding entries, awaited or not, had a pending
  promise of its own that is now rejected with a \<open>TRANSACTION_WAIT_FAILED\<close> error, by
  exactly one settle call.
\<close>

theorem setEnabled_false_rejects_all:
  assumes "reachable w"
  shows "promiseInfoForTxId (setEnabled False w) = []
       \<and> timers (setEnabled False w) = []
       \<and> \<not> enabled (setEnabled False w)
       \<and> distinct (map (promise \<circ> snd) (promiseInfoForTxId w))
       \<and> (\<forall>(txid, info) \<in> set (promiseInfoForTxId w).
             promises w ! promise info = Pending
           \<and> promises (setEnabled False w) ! promise info =
               Rejected (transactionWaitFailedError txid
                           [(''message'', JString ''Transaction waiter disabled'')])
           \<and> code (transactionWaitFailedError txid
                      [(''message'', JString ''Transaction waiter disabled'')])
               = ''TRANSACTION_WAIT_FAILED''
           \<and> count_list (settlements (setEnabled False w)) (promise info) = 1)"
proof -
  from assms have inv: "waiterInv w" by (rule reachable_waiterInv)
  have 1: "promiseInfoForTxId (setEnabled False w) = []" "\<not> enabled (setEnabled False w)"
    by (simp_all add: setEnabled_fold)
  have 2: "promises w ! promise info = Pending"
    if "(txid, info) \<in> set (promiseInfoForTxId w)" for txid info
  proof -
    from inv have "distinct (map fst (promiseInfoForTxId w))" unfolding waiterInv_def by blast
    with that have "map_of (promiseInfoForTxId w) txid = Some info" by simp
    with inv show ?thesis unfolding waiterInv_def by blast
  qed
  have 3: "code (transactionWaitFailedError txid d) = ''TRANSACTION_WAIT_FAILED''" for txid d
    by (simp add: transactionWaitFailedError_def Let_def)
  have 4: "\<forall>(txid, info) \<in> set (promiseInfoForTxId w).
             promises w ! promise info = Pending
           \<and> promises (setEnabled False w) ! promise info =
               Rejected (transactionWaitFailedError txid
                           [(''message'', JString ''Transaction waiter disabled'')])
           \<and> code (transactionWaitFailedError txid
                      [(''message'', JString ''Transaction waiter disabled'')])
               = ''TRANSACTION_WAIT_FAILED''
           \<and> count_list (settlements (setEnabled False w)) (promise info) = 1"
  proof (intro ballI)
    fix x assume x: "x \<in> set (promiseInfoForTxId w)"
    obtain txid info where xe: "x = (txid, info)" by (cases x)
    from x xe have m: "(txid, info) \<in> set (promiseInfoForTxId w)" by simp
    show "case x of (txid, info) \<Rightarrow>
             promises w ! promise info = Pending
           \<and> promises (setEnabled False w) ! promise info =
               Rejected (transactionWaitFailedError txid
                           [(''message'', JString ''Transaction waiter disabled'')])
           \<and> code (transactionWaitFailedError txid
                      [(''message'', JString ''Transaction waiter disabled'')])
               = ''TRANSACTION_WAIT_FAILED''
           \<and> count_list (settlements (setEnabled False w)) (promise info) = 1"
      unfolding xe prod.case
      using 2 [OF m] 3 setEnabled_False_promise [OF inv m] setEnabled_False_count [OF inv m]
      by (intro conjI)
  qed
  from 1 4 setEnabled_False_timers [OF inv] waiterInv_distinct_promises [OF inv]
  show ?thesis by (intro conjI)
qed

theorem setEnabled_false_rejects_all_witness:
  "promiseInfoForTxId (setEnabled False twoPending) = []
   \<and> timers (setEnabled False twoPending) = []
   \<and> promises (setEnabled False twoPending) =
       [Rejected (transactionWaitFailedError ''tx1''
                    [(''message'', JString ''Transaction waiter disabled'')]),
        Rejected (transactionWaitFailedError ''tx2''
                    [(''message'', JString ''Transaction waiter disabled'')])]"
proof -
  have l: "length (promises (setEnabled False twoPending)) = 2"
    by (simp add: setEnabled_fold twoPending_eval)
  have m1: "(''tx1'', \<lparr>promise = 0, waited = False, timeoutId = 0\<rparr>)
             \<in> set (promiseInfoForTxId twoPending)"
    and m2: "(''tx2'', \<lparr>promise = 1, waited = True, timeoutId = 1\<rparr>)
             \<in> set (promiseInfoForTxId twoPending)"
    by (simp_all add: twoPending_eval)
  note main = setEnabled_false_rejects_all [OF reachable_twoPending]
  from main have e: "promiseInfoForTxId (setEnabled False twoPending) = []"
    by (elim conjE)
  from main have t: "timers (setEnabled False twoPending) = []"
    by (elim conjE)
  from main have all: "\<forall>(txid, info) \<in> set (promiseInfoForTxId twoPending).
             promises twoPending ! promise info = Pending
           \<and> promises (setEnabled False twoPending) ! promise info =
               Rejected (transactionWaitFailedError txid
                           [(''message'', JString ''Transaction waiter disabled'')])
           \<and> code (transactionWaitFailedError txid
                      [(''message'', JString ''Transaction waiter disabled'')])
               = ''TRANSACTION_WAIT_FAILED''
           \<and> count_list (settlements (setEnabled False twoPending)) (promise info) = 1"
    by (elim conjE)
  from bspec [OF all m1] have p0: "promises (setEnabled False twoPending) ! 0 =
          Rejected (transactionWaitFailedError ''tx1''
                    [(''message'', JString ''Transaction waiter disabled'')])"
    by simp
  from bspec [OF all m2] have p1: "promises (setEnabled False twoPending) ! 1 =
          Rejected (transactionWaitFailedError ''tx2''
                    [(''message'', JString ''Transaction waiter disabled'')])"
    by simp
  have "xs = [xs ! 0, xs ! 1]" if "length xs = 2" for xs :: "promiseState list"
    using that by (auto simp: numeral_2_eq_2 length_Suc_conv)
  from this [OF l] p0 p1 have "promises (setEnabled False twoPending) =
       [Rejected (transactionWaitFailedError ''tx1''
                    [(''message'', JString ''Transaction waiter disabled'')]),
        Rejected (transactionWaitFailedError ''tx2''
                    [(''message'', JString ''Transaction waiter disabled'')])]"
    by simp
  with e t show ?thesis by (intro conjI)
qed

lemma reachable_disabled_empty:
  assumes "reachable w" and "\<not> enabled w"
  shows "promiseInfoForTxId w = []"
  using reachable_waiterInv [OF assms(1)] assms(2) unfolding waiterInv_def by blast

text \<open>
  C10. When the waiter is disabled and the id has no live entry, \<open>registerTxId\<close> returns
  without throwing and leaves the state exactly as it was (no entry, no timer), so a
  subsequent \<open>wait\<close> on the id throws \<open>TRANSACTION_ID_NOT_REGISTERED\<close>, and a second
  registration of the same id, made in the state the first one left, returns silently
  too. A reachable disabled waiter has no entries at all, so there the proviso holds for
  every id.
\<close>

theorem registerTxId_disabled:
  assumes "\<not> enabled w" and "map_of (promiseInfoForTxId w) txid = None"
  shows "registerTxId txid timeoutMs w = Inr w
       \<and> (\<exists>e. wait txid w = Inl e \<and> code e = ''TRANSACTION_ID_NOT_REGISTERED'')
       \<and> registerTxId txid timeoutMs' w = Inr w
       \<and> run [RegisterTxId txid timeoutMs, RegisterTxId txid timeoutMs', Wait txid] w = w
       \<and> (reachable w \<longrightarrow> promiseInfoForTxId w = [])"
  using assms reachable_disabled_empty [of w] by (simp add: registerTxId_def wait_def)

theorem registerTxId_disabled_witness:
  "\<not> enabled newTransactionWaiter
   \<and> registerTxId ''tx1'' 30000 newTransactionWaiter = Inr newTransactionWaiter
   \<and> (\<exists>e. wait ''tx1'' newTransactionWaiter = Inl e \<and> code e = ''TRANSACTION_ID_NOT_REGISTERED'')
   \<and> registerTxId ''tx1'' 500 newTransactionWaiter = Inr newTransactionWaiter
   \<and> promiseInfoForTxId newTransactionWaiter = []"
proof -
  have d: "\<not> enabled newTransactionWaiter" by (simp add: newTransactionWaiter_def)
  have n: "map_of (promiseInfoForTxId newTransactionWaiter) ''tx1'' = None"
    by (simp add: newTransactionWaiter_def)
  from registerTxId_disabled [OF d n, of 30000 500] d reachable_new
  show ?thesis by simp
qed

lemma run_append: "run (xs @ ys) w = run ys (run xs w)"
  by (induction xs arbitrary: w) simp_all

lemma entryLive_wait:
  assumes "entryLive txid tid p w"
  shows "entryLive txid tid p (step (Wait txid) w)"
proof -
  from assms obtain info where i: "map_of (promiseInfoForTxId w) txid = Some info"
    "promise info = p" "timeoutId info = tid"
    unfolding entryLive_def by blast
  have s: "step (Wait txid) w = w\<lparr>promiseInfoForTxId :=
                    AList.update txid (info\<lparr>waited := True\<rparr>) (promiseInfoForTxId w)\<rparr>"
    using i(1) by (simp add: wait_def)
  show ?thesis
    using assms i unfolding entryLive_def s by (simp add: update_conv')
qed

lemma entryLive_finish:
  assumes live: "entryLive txid tid p w"
    and i: "map_of (promiseInfoForTxId w) txid = Some info"
    and o: "outcome \<noteq> Pending"
  shows "entryDone txid tid p (finish txid info outcome w)"
proof -
  from live i have "promise info = p" "timeoutId info = tid"
    unfolding entryLive_def by auto
  with live o show ?thesis
    unfolding entryLive_def entryDone_def
    by (simp add: finish_promises delete_conv')
qed

lemma entryLive_terminal:
  assumes live: "entryLive txid tid p w" and e: "eventOf txid tid e" and t: "terminal e"
  shows "entryDone txid tid p (step e w)"
proof -
  from live obtain info ms where i: "map_of (promiseInfoForTxId w) txid = Some info"
    "promise info = p" "timeoutId info = tid" and tm: "map_of (timers w) tid = Some (txid, ms)"
    unfolding entryLive_def by blast
  show ?thesis
  proof (cases e)
    case (NotifySuccess t' dat)
    with e have "t' = txid" by simp
    with NotifySuccess show ?thesis
      using entryLive_finish [OF live i(1)] by (simp add: notifySuccess_finish [OF i(1)])
  next
    case (NotifyFailure t' detail)
    with e have "t' = txid" by simp
    with NotifyFailure show ?thesis
      using entryLive_finish [OF live i(1)] by (simp add: notifyFailure_finish [OF i(1)])
  next
    case (TimerFires n)
    with e have "n = tid" by simp
    with TimerFires tm i(3) show ?thesis
      using entryLive_finish [OF live i(1)] timeoutCallback_finish [OF i(1)]
      by (simp add: fireTimer_def)
  qed (use t in simp_all)
qed

lemma entryDone_noop:
  assumes "entryDone txid tid p w" and "eventOf txid tid e"
  shows "step e w = w"
  using assms unfolding entryDone_def
  by (cases e) (simp_all add: wait_def notifySuccess_def notifyFailure_def fireTimer_def)

lemma entryDone_run:
  assumes "entryDone txid tid p w" and "\<forall>e \<in> set evs. eventOf txid tid e"
  shows "run evs w = w"
  using assms by (induction evs) (simp_all add: entryDone_noop)

lemma entryLive_run:
  assumes "entryLive txid tid p w" and "\<forall>e \<in> set evs. eventOf txid tid e"
  shows "if list_ex terminal evs then entryDone txid tid p (run evs w)
         else entryLive txid tid p (run evs w)"
  using assms
proof (induction evs arbitrary: w)
  case Nil
  then show ?case by simp
next
  case (Cons e evs)
  from Cons.prems have e: "eventOf txid tid e" and rest: "\<forall>e \<in> set evs. eventOf txid tid e"
    by simp_all
  show ?case
  proof (cases "terminal e")
    case True
    from entryLive_terminal [OF Cons.prems(1) e True]
    have d: "entryDone txid tid p (step e w)" .
    with entryDone_run [OF d rest] True show ?thesis by simp
  next
    case False
    with e have "e = Wait txid" by (cases e) simp_all
    with entryLive_wait [OF Cons.prems(1)] have "entryLive txid tid p (step e w)" by simp
    from Cons.IH [OF this rest] False show ?thesis by simp
  qed
qed

lemma register_entryLive:
  assumes inv: "waiterInv w0" and en: "enabled w0"
    and fresh: "map_of (promiseInfoForTxId w0) txid = None"
  shows "registerTxId txid ms w0 = Inr (step (RegisterTxId txid ms) w0)"
    and "map_of (promiseInfoForTxId (step (RegisterTxId txid ms) w0)) txid =
           Some \<lparr>promise = length (promises w0), waited = False, timeoutId = nextTimeoutId w0\<rparr>"
    and "entryLive txid (nextTimeoutId w0) (length (promises w0)) (step (RegisterTxId txid ms) w0)"
proof -
  have s: "step (RegisterTxId txid ms) w0 =
      w0\<lparr>promises := promises w0 @ [Pending],
         timers := AList.update (nextTimeoutId w0) (txid, ms) (timers w0),
         nextTimeoutId := Suc (nextTimeoutId w0),
         promiseInfoForTxId :=
           AList.update txid \<lparr>promise = length (promises w0), waited = False,
                              timeoutId = nextTimeoutId w0\<rparr> (promiseInfoForTxId w0)\<rparr>"
    using en fresh by (simp add: registerTxId_def Let_def)
  show "registerTxId txid ms w0 = Inr (step (RegisterTxId txid ms) w0)"
    unfolding s using en fresh by (simp add: registerTxId_def Let_def)
  show "map_of (promiseInfoForTxId (step (RegisterTxId txid ms) w0)) txid =
           Some \<lparr>promise = length (promises w0), waited = False, timeoutId = nextTimeoutId w0\<rparr>"
    unfolding s by (simp add: update_conv')
  from inv have "length (promises w0) \<notin> set (settlements w0)"
    unfolding waiterInv_def by auto
  then show "entryLive txid (nextTimeoutId w0) (length (promises w0)) (step (RegisterTxId txid ms) w0)"
    unfolding s entryLive_def by (simp add: update_conv')
qed

text \<open>
  C2. Take a reachable, enabled waiter without an entry for \<open>txid\<close>, register the id, and
  let any sequence of the events wait, notify-success, notify-failure and timeout on that
  id follow. Registration creates the entry with a pending, never settled promise. If the
  sequence contains a terminal event, the promise ends up settled, by exactly one settle
  call, and the entry and its timer are gone; otherwise the promise is still pending and
  the entry still there. Once a prefix of the sequence contains a terminal event, the rest
  of the sequence changes nothing at all.
\<close>

theorem outcome_settles_exactly_once:
  assumes "reachable w0" and "enabled w0" and "map_of (promiseInfoForTxId w0) txid = None"
    and "w1 = step (RegisterTxId txid timeoutMs) w0"
    and "p = length (promises w0)" and "tid = nextTimeoutId w0"
    and "\<forall>e \<in> set evs. eventOf txid tid e"
  shows "registerTxId txid timeoutMs w0 = Inr w1
       \<and> map_of (promiseInfoForTxId w1) txid = Some \<lparr>promise = p, waited = False, timeoutId = tid\<rparr>
       \<and> promises w1 ! p = Pending \<and> count_list (settlements w1) p = 0
       \<and> (if list_ex terminal evs
          then promises (run evs w1) ! p \<noteq> Pending
             \<and> count_list (settlements (run evs w1)) p = 1
             \<and> map_of (promiseInfoForTxId (run evs w1)) txid = None
             \<and> map_of (timers (run evs w1)) tid = None
          else promises (run evs w1) ! p = Pending
             \<and> count_list (settlements (run evs w1)) p = 0
             \<and> map_of (promiseInfoForTxId (run evs w1)) txid \<noteq> None)
       \<and> (\<forall>pre post. evs = pre @ post \<and> list_ex terminal pre \<longrightarrow> run evs w1 = run pre w1)"
proof -
  from assms(1) have inv: "waiterInv w0" by (rule reachable_waiterInv)
  note reg = register_entryLive [OF inv assms(2,3), of timeoutMs, folded assms(4,5,6)]
  have live: "entryLive txid tid p w1" by (rule reg(3))
  have 1: "promises w1 ! p = Pending" "count_list (settlements w1) p = 0"
    using live unfolding entryLive_def by simp_all
  have 2: "if list_ex terminal evs
          then promises (run evs w1) ! p \<noteq> Pending
             \<and> count_list (settlements (run evs w1)) p = 1
             \<and> map_of (promiseInfoForTxId (run evs w1)) txid = None
             \<and> map_of (timers (run evs w1)) tid = None
          else promises (run evs w1) ! p = Pending
             \<and> count_list (settlements (run evs w1)) p = 0
             \<and> map_of (promiseInfoForTxId (run evs w1)) txid \<noteq> None"
    using entryLive_run [OF live assms(7)]
    unfolding entryLive_def entryDone_def by (auto split: if_splits)
  have 3: "run evs w1 = run pre w1" if "evs = pre @ post" "list_ex terminal pre" for pre post
  proof -
    from that(1) assms(7) have a: "\<forall>e \<in> set pre. eventOf txid tid e"
      and b: "\<forall>e \<in> set post. eventOf txid tid e" by simp_all
    from entryLive_run [OF live a] that(2) have "entryDone txid tid p (run pre w1)" by simp
    from entryDone_run [OF this b] show ?thesis by (simp add: that(1) run_append)
  qed
  from reg(1,2) 1 2 3 show ?thesis by blast
qed


theorem outcome_settles_exactly_once_witness:
  "registerTxId ''tx1'' 30000 connected = Inr (step (RegisterTxId ''tx1'' 30000) connected)
   \<and> promises (run raceEvents (step (RegisterTxId ''tx1'' 30000) connected)) ! 0 \<noteq> Pending
   \<and> count_list (settlements (run raceEvents (step (RegisterTxId ''tx1'' 30000) connected))) 0 = 1
   \<and> map_of (promiseInfoForTxId (run raceEvents (step (RegisterTxId ''tx1'' 30000) connected)))
         ''tx1'' = None
   \<and> run raceEvents (step (RegisterTxId ''tx1'' 30000) connected)
       = run [Wait ''tx1'', TimerFires 0] (step (RegisterTxId ''tx1'' 30000) connected)"
proof -
  have c: "connected = newTransactionWaiter\<lparr>enabled := True\<rparr>"
    by (simp add: connected_def setEnabled_def)
  have r: "reachable connected"
    unfolding connected_def by (rule reachable_step) (rule reachable_new)
  have en: "enabled connected" by (simp add: c)
  have fresh: "map_of (promiseInfoForTxId connected) ''tx1'' = None"
    by (simp add: c newTransactionWaiter_def)
  have p: "0 = length (promises connected)" and tid: "0 = nextTimeoutId connected"
    by (simp_all add: c newTransactionWaiter_def)
  have evs: "\<forall>e \<in> set raceEvents. eventOf ''tx1'' 0 e"
    by (simp add: raceEvents_def)
  have t: "list_ex terminal raceEvents" by (simp add: raceEvents_def)
  have split: "raceEvents = [Wait ''tx1'', TimerFires 0] @
      [NotifySuccess ''tx1'' \<lparr>Data = [], transactionId = ''0xabc''\<rparr>,
       NotifyFailure ''tx1'' [(''message'', JString ''late'')], TimerFires 0]
     \<and> list_ex terminal [Wait ''tx1'', TimerFires 0]"
    by (simp add: raceEvents_def)
  note main = outcome_settles_exactly_once [OF r en fresh refl p tid evs, of 30000]
  from main have 1: "registerTxId ''tx1'' 30000 connected
      = Inr (step (RegisterTxId ''tx1'' 30000) connected)"
    by (elim conjE)
  from main t have 2: "promises (run raceEvents (step (RegisterTxId ''tx1'' 30000) connected)) ! 0 \<noteq> Pending
             \<and> count_list (settlements (run raceEvents (step (RegisterTxId ''tx1'' 30000) connected))) 0 = 1
             \<and> map_of (promiseInfoForTxId (run raceEvents (step (RegisterTxId ''tx1'' 30000) connected))) ''tx1'' = None
             \<and> map_of (timers (run raceEvents (step (RegisterTxId ''tx1'' 30000) connected))) 0 = None"
    by (elim conjE) (simp only: if_True, simp)
  from main have 3: "\<forall>pre post. raceEvents = pre @ post \<and> list_ex terminal pre \<longrightarrow>
      run raceEvents (step (RegisterTxId ''tx1'' 30000) connected)
        = run pre (step (RegisterTxId ''tx1'' 30000) connected)"
    by (elim conjE)
  from 3 [rule_format, OF split]
  have 4: "run raceEvents (step (RegisterTxId ''tx1'' 30000) connected)
       = run [Wait ''tx1'', TimerFires 0] (step (RegisterTxId ''tx1'' 30000) connected)" .
  from 1 2 4 show ?thesis by (elim conjE) (intro conjI)
qed

section \<open>Numbers: rounding and square roots\<close>

lemma isqrt_correct: "0 \<le> n \<Longrightarrow> 0 \<le> isqrt n \<and> isqrt n * isqrt n \<le> n \<and> n < (isqrt n + 1) * (isqrt n + 1)"
proof (induction n rule: isqrt.induct)
  case (1 n)
  show ?case
  proof (cases "n \<le> 0")
    case True
    with 1 have "n = 0" by simp
    moreover have "isqrt 0 = 0" by (subst isqrt.simps) simp
    ultimately show ?thesis by simp
  next
    case False
    define q where "q = isqrt (n div 4)"
    from False have "0 \<le> n div 4" by simp
    from 1(1) [OF False this] have ih: "0 \<le> q" "q * q \<le> n div 4" "n div 4 < (q + 1) * (q + 1)"
      by (simp_all add: q_def)
    have eq: "isqrt n = (if (2 * q + 1) * (2 * q + 1) \<le> n then 2 * q + 1 else 2 * q)"
      using False by (subst isqrt.simps) (simp add: q_def Let_def)
    have "4 * (n div 4) \<le> n" by simp
    with ih(2) have lo: "(2 * q) * (2 * q) \<le> n" by (simp add: algebra_simps)
    from ih(3) have "n div 4 + 1 \<le> (q + 1) * (q + 1)" by simp
    then have "4 * (n div 4) + 4 \<le> 4 * ((q + 1) * (q + 1))" by simp
    moreover have "n < 4 * (n div 4) + 4" by (simp add: algebra_simps)
    ultimately have hi: "n < (2 * q + 2) * (2 * q + 2)" by (simp add: algebra_simps)
    show ?thesis
      using lo hi ih(1) by (simp add: eq algebra_simps)
  qed
qed






















lemma roundDown_nonneg: "0 \<le> v \<Longrightarrow> 0 \<le> roundDown dp v"
  by (simp add: roundDown_def)

lemma isqrt_floor_sqrt:
  assumes "0 \<le> x"
  shows "isqrt \<lfloor>x\<rfloor> = \<lfloor>sqrt x\<rfloor>"
proof -
  define s where "s = isqrt \<lfloor>x\<rfloor>"
  from assms have m: "0 \<le> \<lfloor>x\<rfloor>" by simp
  from isqrt_correct [OF m] have s: "0 \<le> s" "s * s \<le> \<lfloor>x\<rfloor>" "\<lfloor>x\<rfloor> < (s + 1) * (s + 1)"
    by (simp_all add: s_def)
  from s(2) have "of_int (s * s) \<le> x" by linarith
  then have lo: "(of_int s)\<^sup>2 \<le> x" by (simp add: power2_eq_square)
  from s(3) have "\<lfloor>x\<rfloor> + 1 \<le> (s + 1) * (s + 1)" by simp
  then have "x < of_int ((s + 1) * (s + 1))" by linarith
  then have hi: "x < (of_int s + 1)\<^sup>2" by (simp add: power2_eq_square)
  from lo s(1) have "of_int s \<le> sqrt x" by (simp add: real_le_rsqrt)
  moreover from hi s(1) have "sqrt x < of_int s + 1"
    by (intro real_less_lsqrt) simp_all
  ultimately have "\<lfloor>sqrt x\<rfloor> = s" by (intro floor_unique) simp_all
  then show ?thesis by (simp add: s_def)
qed

text \<open>
  The rounded square root of the model is the real square root, rounded half up at \<open>dp\<close>
  decimal places.
\<close>

lemma sqrtRounded_correct:
  assumes "0 \<le> r"
  shows "real_of_rat (sqrtRounded dp r)
           = of_int \<lfloor>sqrt (real_of_rat r) * 10 ^ dp + 1 / 2\<rfloor> / 10 ^ dp"
proof -
  define y where "y = sqrt (real_of_rat r) * 10 ^ dp"
  define R where "R = real_of_rat (4 * r * 10 ^ (2 * dp))"
  from assms have R0: "0 \<le> R" by (simp add: R_def of_rat_mult of_rat_power)
  have "(sqrt (real_of_rat r))\<^sup>2 = real_of_rat r" using assms by simp
  then have "(2 * y)\<^sup>2 = 4 * real_of_rat r * (10 ^ dp)\<^sup>2"
    by (simp add: y_def power_mult_distrib)
  also have "\<dots> = R"
    by (simp add: R_def of_rat_mult of_rat_power power_mult [symmetric] mult.commute)
  finally have "R = (2 * y)\<^sup>2" by simp
  moreover from assms have "0 \<le> y" by (simp add: y_def)
  ultimately have sq: "sqrt R = 2 * y" by (simp add: real_sqrt_unique)
  have fl: "\<lfloor>4 * r * 10 ^ (2 * dp)\<rfloor> = \<lfloor>R\<rfloor>"
    unfolding R_def by (simp only: of_rat_floor)
  have "isqrt \<lfloor>4 * r * 10 ^ (2 * dp)\<rfloor> = \<lfloor>2 * y\<rfloor>"
    using isqrt_floor_sqrt [OF R0] by (simp add: fl sq)
  moreover have "\<lfloor>y + 1 / 2\<rfloor> = (\<lfloor>2 * y\<rfloor> + 1) div 2"
  proof -
    have "y + 1 / 2 = (2 * y + 1) / real_of_int 2" by (simp add: field_simps)
    then have "\<lfloor>y + 1 / 2\<rfloor> = \<lfloor>(2 * y + 1) / real_of_int 2\<rfloor>" by (simp only:)
    also have "\<dots> = \<lfloor>2 * y + 1\<rfloor> div 2" by (rule floor_divide_real_eq_div) simp
    finally show ?thesis by simp
  qed
  ultimately show ?thesis
    by (simp add: sqrtRounded_def y_def of_rat_divide of_rat_power)
qed

section \<open>Ticks and prices: theorems\<close>

text \<open>
  The boundary cases that the code does reach: the price zero, with the positive sign,
  gives the minimum tick for every valid tick spacing, and the two boundary ticks give
  the prices zero and infinity exactly, without the floating-point power. The negative
  zero does not pass the validation: \<open>isNegative\<close> reads its sign.
\<close>

lemma calculateTicksForPrice_zero:
  assumes "validateTickSpacing tickSpacing = Inr ()"
  shows "calculateTicksForPrice toDouble roundLog (Num 0) tickSpacing = Inr (- 886800)"
  using assms
  by (simp add: calculateTicksForPrice_def validateNumericAmount_def isFinite_def
        isNegative_def toNumber_def)

lemma calculateTicksForPrice_negative_zero:
  "calculateTicksForPrice toDouble roundLog NegZero tickSpacing =
     Inl \<lparr>message = ''Invalid price: must be non-negative'', code = ''VALIDATION_ERROR'',
          details = Some [(''type'', JString ''INVALID_NUMERIC_AMOUNT''),
                          (''parameterName'', JString ''price''),
                          (''value'', JBigNumber NegZero),
                          (''reason'', JString ''negative'')]\<rparr>"
  by (simp add: calculateTicksForPrice_def validateNumericAmount_def isFinite_def
        isNegative_def)

lemma calculatePriceForTicks_boundaries:
  "calculatePriceForTicks powTick (Number (- 886800)) = Num 0"
  "calculatePriceForTicks powTick (Number 886800) = PosInfinity"
  by (simp_all add: calculatePriceForTicks_def)

text \<open>
  A finite price too large for a double does reach the branch for infinity.
\<close>

lemma calculateTicksForPrice_overflow:
  assumes "validateTickSpacing tickSpacing = Inr ()" and "0 < r"
    and "toDouble r = NumberInfinity"
  shows "calculateTicksForPrice toDouble roundLog (Num r) tickSpacing = Inr 886800"
  using assms
  by (simp add: calculateTicksForPrice_def validateNumericAmount_def isFinite_def
        isNegative_def toNumber_def)

text \<open>
  C3, at the price infinity: \<open>calculateTicksForPrice\<close> does not return 886800. Its first
  statement, \<open>validateNumericAmount(price, 'price', true)\<close>, throws the validation error
  for a value that is not finite, whatever the tick spacing, before the comparison of the
  price with \<open>Infinity\<close> is reached.
\<close>

theorem calculateTicksForPrice_infinity_throws:
  "calculateTicksForPrice toDouble roundLog PosInfinity tickSpacing =
     Inl \<lparr>message = ''Invalid price: must be a finite number'', code = ''VALIDATION_ERROR'',
          details = Some [(''type'', JString ''INVALID_NUMERIC_AMOUNT''),
                          (''parameterName'', JString ''price''),
                          (''value'', JBigNumber PosInfinity),
                          (''reason'', JString ''not_finite'')]\<rparr>"
  by (simp add: calculateTicksForPrice_def validateNumericAmount_def isFinite_def)

section \<open>The optimal position size: theorems\<close>


















section \<open>Quoting: theorems\<close>

lemma isLessThan_conv: "isLessThan a b = isGreaterThan b a"
  by (cases a; cases b)
     (simp_all add: isLessThan_def isGreaterThan_def comparedTo_def isFinite_def finiteValue_def)

lemma isGreaterThan_asym: "isGreaterThan a b \<Longrightarrow> \<not> isGreaterThan b a"
  by (cases a; cases b)
     (simp_all add: isGreaterThan_def comparedTo_def isFinite_def finiteValue_def
        split: if_splits)

lemma isGreaterThan_step:
  assumes "isGreaterThan y b" and "\<not> isGreaterThan z b"
  shows "\<not> isGreaterThan z y \<and> (isGreaterThan y z \<or> z = NaN)"
  using assms
  by (cases y; cases b; cases z)
     (simp_all add: isGreaterThan_def comparedTo_def isFinite_def finiteValue_def
        split: if_splits)

text \<open>Among values that are not \<open>NaN\<close> the comparison is total.\<close>

lemma isGreaterThan_total:
  assumes "a \<noteq> NaN" and "b \<noteq> NaN" and "\<not> isGreaterThan a b"
  shows "isLessThan a b \<or> comparedTo a b = Some 0"
  using assms
  by (cases a; cases b)
     (simp_all add: isGreaterThan_def isLessThan_def comparedTo_def isFinite_def
        finiteValue_def split: if_splits)

lemma comparedTo_sym: "comparedTo a b = Some 0 \<Longrightarrow> comparedTo b a = Some 0"
  by (cases a; cases b)
     (simp_all add: comparedTo_def isFinite_def finiteValue_def split: if_splits)

lemma foldl_pick_first_best:
  fixes better :: "'a \<Rightarrow> 'a \<Rightarrow> bool" and odd :: "'a \<Rightarrow> bool"
  assumes asym: "\<And>a b. better a b \<Longrightarrow> \<not> better b a"
    and step: "\<And>y b z. better y b \<Longrightarrow> \<not> better z b \<Longrightarrow> \<not> better z y \<and> (better y z \<or> odd z)"
  shows "\<exists>i < length (x # xs). foldl (pick better) x xs = (x # xs) ! i
           \<and> (\<forall>z \<in> set (x # xs). \<not> better z ((x # xs) ! i))
           \<and> (\<forall>j < i. better ((x # xs) ! i) ((x # xs) ! j) \<or> odd ((x # xs) ! j))"
proof (induction xs rule: rev_induct)
  case Nil
  have "\<not> better x x" using asym by blast
  then show ?case by simp
next
  case (snoc y ys)
  then obtain i where i: "i < length (x # ys)" "foldl (pick better) x ys = (x # ys) ! i"
    and mx: "\<forall>z \<in> set (x # ys). \<not> better z ((x # ys) ! i)"
    and fst: "\<forall>j < i. better ((x # ys) ! i) ((x # ys) ! j) \<or> odd ((x # ys) ! j)"
    by blast
  let ?b = "(x # ys) ! i"
  let ?l = "x # ys @ [y]"
  have pre: "?l ! j = (x # ys) ! j" if "j < length (x # ys)" for j
    using that nth_append [of "x # ys" "[y]" j] by simp
  show ?case
  proof (cases "better y ?b")
    case True
    let ?n = "length (x # ys)"
    have r: "foldl (pick better) x (ys @ [y]) = ?l ! ?n"
      using True i(2) nth_append_length [of "x # ys" y] by (simp add: pick_def)
    have ny: "?l ! ?n = y" using nth_append_length [of "x # ys" y] by simp
    have a: "\<forall>z \<in> set ?l. \<not> better z (?l ! ?n)"
    proof
      fix z assume "z \<in> set ?l"
      then have "z = y \<or> z \<in> set (x # ys)" by auto
      then show "\<not> better z (?l ! ?n)"
      proof
        assume "z = y"
        with asym show ?thesis unfolding ny by blast
      next
        assume "z \<in> set (x # ys)"
        with mx have "\<not> better z ?b" by blast
        from step [OF True this] show ?thesis unfolding ny by blast
      qed
    qed
    have b: "\<forall>j < ?n. better (?l ! ?n) (?l ! j) \<or> odd (?l ! j)"
    proof (intro allI impI)
      fix j assume j: "j < ?n"
      then have "(x # ys) ! j \<in> set (x # ys)" by (rule nth_mem)
      with mx have "\<not> better ((x # ys) ! j) ?b" by blast
      from step [OF True this] show "better (?l ! ?n) (?l ! j) \<or> odd (?l ! j)"
        unfolding ny pre [OF j] by blast
    qed
    have "?n < length ?l" by simp
    with r a b show ?thesis by blast
  next
    case False
    have r: "foldl (pick better) x (ys @ [y]) = ?l ! i"
      using False i by (simp add: pick_def pre)
    have e: "?l ! i = ?b" using i(1) by (rule pre)
    have a: "\<forall>z \<in> set ?l. \<not> better z (?l ! i)"
      unfolding e using mx False by auto
    have b: "\<forall>j < i. better (?l ! i) (?l ! j) \<or> odd (?l ! j)"
    proof (intro allI impI)
      fix j assume j: "j < i"
      with i(1) have "j < length (x # ys)" by simp
      from pre [OF this] fst j show "better (?l ! i) (?l ! j) \<or> odd (?l ! j)"
        unfolding e by simp
    qed
    from i(1) have "i < length ?l" by simp
    with r a b show ?thesis by blast
  qed
qed

lemma quoteExactInput_all:
  assumes "validateNumericAmount amountIn ''amountIn'' False = Inr ()"
  shows "quoteExactInput single settleOrder tokenIn tokenOut amountIn None =
           quoteAllTiers (pick (\<lambda>a b. isGreaterThan (outTokenAmount a) (outTokenAmount b)))
             single settleOrder tokenIn tokenOut"
  unfolding quoteExactInput_def quoteAllTiers_def pick_def assms
  by (simp only: sum.case option.case)

lemma quoteExactOutput_all:
  assumes "validateNumericAmount amountOut ''amountOut'' False = Inr ()"
  shows "quoteExactOutput single settleOrder tokenIn tokenOut amountOut None =
           quoteAllTiers (pick (\<lambda>a b. isLessThan (inTokenAmount a) (inTokenAmount b)))
             single settleOrder tokenIn tokenOut"
  unfolding quoteExactOutput_def quoteAllTiers_def pick_def assms
  by (simp only: sum.case option.case)

lemma promiseAll_alt:
  "promiseAll settleOrder ps =
     (case concat (map (\<lambda>i. if i < length ps then (case ps ! i of Inl e \<Rightarrow> [e] | Inr v \<Rightarrow> [])
                              else [])
                     (settleOrder @ [0..<length ps])) of
        [] \<Rightarrow> Inr (concat (map (\<lambda>p. case p of Inl e \<Rightarrow> [] | Inr v \<Rightarrow> [v]) ps))
      | e # es \<Rightarrow> Inl e)"
  unfolding promiseAll_def by (rule refl)

lemma promiseAll_fulfilled:
  assumes "\<forall>p \<in> set ps. \<exists>v. p = Inr v"
  shows "promiseAll settleOrder ps = Inr (concat (map (\<lambda>p. case p of Inl e \<Rightarrow> [] | Inr v \<Rightarrow> [v]) ps))"
proof -
  define f where "f = (\<lambda>i. if i < length ps then (case ps ! i of Inl e \<Rightarrow> [e] | Inr v \<Rightarrow> [])
                              else [])"
  have f: "f i = []" for i
  proof (cases "i < length ps")
    case True
    then have "ps ! i \<in> set ps" by (rule nth_mem)
    with assms obtain v where "ps ! i = Inr v" by blast
    with True show ?thesis by (simp add: f_def)
  next
    case False
    then show ?thesis by (simp add: f_def)
  qed
  have c: "concat (map f xs) = []" for xs
    by (induction xs) (simp_all add: f)
  show ?thesis unfolding promiseAll_alt f_def [symmetric] c by (simp only: list.case)
qed

lemma promiseAll_rejected:
  assumes "Inl e0 \<in> set ps"
  shows "\<exists>e. Inl e \<in> set ps \<and> promiseAll settleOrder ps = Inl e"
proof -
  define f where "f = (\<lambda>i. if i < length ps then (case ps ! i of Inl e \<Rightarrow> [e] | Inr v \<Rightarrow> [])
                              else [])"
  define rs where "rs = concat (map f (settleOrder @ [0..<length ps]))"
  have mem: "Inl e \<in> set ps" if "e \<in> set (f j)" for e j
  proof (cases "j < length ps")
    case True
    then have m: "ps ! j \<in> set ps" by (rule nth_mem)
    from that True have "ps ! j = Inl e" by (cases "ps ! j") (simp_all add: f_def)
    with m show ?thesis by simp
  next
    case False
    with that show ?thesis by (simp add: f_def)
  qed
  from assms obtain i where i: "i < length ps" "ps ! i = Inl e0"
    by (auto simp: in_set_conv_nth)
  then have "e0 \<in> set (f i)" by (simp add: f_def)
  moreover from i(1) have "i \<in> set (settleOrder @ [0..<length ps])" by simp
  ultimately have "e0 \<in> set rs" unfolding rs_def by auto
  then obtain e es where rs: "rs = e # es" by (cases rs) auto
  then have "e \<in> set rs" by simp
  then obtain j where "e \<in> set (f j)" unfolding rs_def by auto
  then have "Inl e \<in> set ps" by (rule mem)
  moreover have "promiseAll settleOrder ps = Inl e"
    unfolding promiseAll_alt f_def [symmetric] rs_def [symmetric] rs by simp
  ultimately show ?thesis by blast
qed

lemma quotes_eq_returned:
  assumes "\<forall>t \<in> set ts. \<forall>e. single t = Inl e \<longrightarrow> isPoolAbsent e"
  shows "concat (map (\<lambda>quote. case quote of None \<Rightarrow> [] | Some q \<Rightarrow> [q])
           (concat (map (\<lambda>p. case p of Inl e \<Rightarrow> [] | Inr v \<Rightarrow> [v])
              (map (\<lambda>feeTier. case single feeTier of
                                 Inr quote \<Rightarrow> Inr (Some quote)
                               | Inl err \<Rightarrow> if isPoolAbsent err then Inr None else Inl err) ts))))
         = concat (map (\<lambda>feeTier. case single feeTier of Inl err \<Rightarrow> [] | Inr quote \<Rightarrow> [quote]) ts)"
  using assms
proof (induction ts)
  case Nil
  then show ?case by simp
next
  case (Cons t ts)
  then show ?case by (cases "single t") simp_all
qed

lemma quoteAllTiers_no_other_error:
  assumes ok: "\<forall>t \<in> set allFees. \<forall>e. single t = Inl e \<longrightarrow> isPoolAbsent e"
  shows "quoteAllTiers f single settleOrder tokenIn tokenOut =
           (case returnedQuotes single of
              [] \<Rightarrow> Inl (SDKError (noPoolAvailableError tokenIn tokenOut None))
            | q # qs \<Rightarrow> Inr (foldl f q qs))"
proof -
  define g where "g = (\<lambda>feeTier. case single feeTier of
                                 Inr quote \<Rightarrow> Inr (Some quote)
                               | Inl err \<Rightarrow> if isPoolAbsent err then Inr None else Inl err)"
  have "\<exists>v. g t = Inr v" if "t \<in> set allFees" for t
    using ok that by (cases "single t") (simp_all add: g_def)
  then have "\<forall>p \<in> set (map g allFees). \<exists>v. p = Inr v" by auto
  then have pa: "promiseAll settleOrder (map g allFees) =
      Inr (concat (map (\<lambda>p. case p of Inl e \<Rightarrow> [] | Inr v \<Rightarrow> [v]) (map g allFees)))"
    by (rule promiseAll_fulfilled)
  have q: "concat (map (\<lambda>quote. case quote of None \<Rightarrow> [] | Some q \<Rightarrow> [q])
           (concat (map (\<lambda>p. case p of Inl e \<Rightarrow> [] | Inr v \<Rightarrow> [v]) (map g allFees))))
         = returnedQuotes single"
    unfolding g_def returnedQuotes_def using ok by (rule quotes_eq_returned)
  show ?thesis
    unfolding quoteAllTiers_def Let_def g_def [symmetric] pa sum.case q
    by (cases "returnedQuotes single") simp_all
qed

lemma quoteAllTiers_other_error:
  assumes "t0 \<in> set allFees" and "single t0 = Inl e0" and "\<not> isPoolAbsent e0"
  shows "\<exists>t \<in> set allFees. \<exists>e. single t = Inl e \<and> \<not> isPoolAbsent e
           \<and> quoteAllTiers f single settleOrder tokenIn tokenOut = Inl e"
proof -
  define g where "g = (\<lambda>feeTier. case single feeTier of
                                 Inr quote \<Rightarrow> Inr (Some quote)
                               | Inl err \<Rightarrow> if isPoolAbsent err then Inr None else Inl err)"
  from assms have "g t0 = Inl e0" by (simp add: g_def)
  with assms(1) have "Inl e0 \<in> set (map g allFees)" by force
  from promiseAll_rejected [OF this] obtain e where
    e: "Inl e \<in> set (map g allFees)" "promiseAll settleOrder (map g allFees) = Inl e" by blast
  from e(1) obtain t where t: "t \<in> set allFees" "g t = Inl e" by auto
  from t(2) have "single t = Inl e \<and> \<not> isPoolAbsent e"
    by (cases "single t") (simp_all add: g_def split: if_splits)
  moreover have "quoteAllTiers f single settleOrder tokenIn tokenOut = Inl e"
    unfolding quoteAllTiers_def Let_def g_def [symmetric] e(2) by simp
  ultimately show ?thesis using t(1) by blast
qed

lemma returnedQuotes_Nil:
  "returnedQuotes single = [] \<longleftrightarrow> (\<forall>t \<in> set allFees. \<exists>e. single t = Inl e)"
proof -
  have "(concat (map (\<lambda>feeTier. case single feeTier of Inl err \<Rightarrow> [] | Inr quote \<Rightarrow> [quote]) ts) = [])
          \<longleftrightarrow> (\<forall>t \<in> set ts. \<exists>e. single t = Inl e)" for ts
    by (induction ts) (auto split: sum.splits)
  then show ?thesis unfolding returnedQuotes_def .
qed

lemma returnedQuotes_mem:
  "q \<in> set (returnedQuotes single) \<longleftrightarrow> (\<exists>t \<in> set allFees. single t = Inr q)"
  unfolding returnedQuotes_def by (auto split: sum.splits) metis+

lemma isLessThan_asym: "isLessThan a b \<Longrightarrow> \<not> isLessThan b a"
  unfolding isLessThan_conv by (rule isGreaterThan_asym)

lemma isLessThan_step:
  assumes "isLessThan y b" and "\<not> isLessThan z b"
  shows "\<not> isLessThan z y \<and> (isLessThan y z \<or> z = NaN)"
  using assms
  by (cases y; cases b; cases z)
     (simp_all add: isLessThan_def comparedTo_def isFinite_def finiteValue_def
        split: if_splits)

lemma valid_amount: "validateNumericAmount (Num 1) p False = Inr ()"
  by (simp add: validateNumericAmount_def isFinite_def isZero_def isNegative_def)

text \<open>
  C4, as stated, with only the proviso that a fee tier returned a quote: refuted. In the
  first situation two tiers return quotes and the middle one fails with an HTTP error;
  the error is neither \<open>CONFLICT\<close> nor \<open>OBJECT_NOT_FOUND\<close>, the \<open>catch\<close> block throws it
  again, \<open>Promise.all\<close> rejects, and neither method returns a quote. In the second
  situation the three tiers return quotes and the amounts of the first are not numbers;
  every comparison with \<open>NaN\<close> is false, so \<open>reduce\<close> never leaves its first quote, and
  both methods return it although the other tiers quote the outputs 10 and 12 for the
  inputs 22 and 18.
\<close>

theorem best_quote_counterexample:
  "tiersWithFailure PERCENT_01_00 = Inr (exampleQuote PERCENT_01_00 18 12)
   \<and> quoteExactInput tiersWithFailure [] gala silk (Num 1) None = Inl httpError
   \<and> quoteExactOutput tiersWithFailure [] gala silk (Num 1) None = Inl httpError
   \<and> tiersNotANumber PERCENT_01_00 = Inr (exampleQuote PERCENT_01_00 18 12)
   \<and> outTokenAmount (exampleQuote PERCENT_01_00 18 12) = Num 12
   \<and> inTokenAmount (exampleQuote PERCENT_01_00 18 12) = Num 18
   \<and> quoteExactInput tiersNotANumber [] gala silk (Num 1) None
       = Inr (notANumberQuote PERCENT_00_05)
   \<and> quoteExactOutput tiersNotANumber [] gala silk (Num 1) None
       = Inr (notANumberQuote PERCENT_00_05)
   \<and> outTokenAmount (notANumberQuote PERCENT_00_05) = NaN
   \<and> inTokenAmount (notANumberQuote PERCENT_00_05) = NaN"
  by (simp add: quoteExactInput_def quoteExactOutput_def valid_amount allFees_def
        promiseAll_def httpError_def isPoolAbsent_def notANumberQuote_def exampleQuote_def
        isGreaterThan_def isLessThan_def comparedTo_def)

text \<open>
  C4, amended: when no fee tier is specified, no fee tier failed with an error other than
  pool-absent, at least one fee tier returned a quote, and the deciding amount of every
  returned quote is a number (not \<open>NaN\<close>), \<open>quoteExactInput\<close> returns the returned quote
  whose output amount is greatest, every other returned quote having a smaller or an
  equal output amount, and \<open>quoteExactOutput\<close> the one whose input amount is least; every
  quote that an earlier tier of the iteration order returned is strictly worse on the
  deciding amount, so that of two tying tiers the first encountered wins. The amount must
  have passed the validation that precedes the requests.
\<close>

theorem best_quote_across_tiers:
  assumes ok: "\<forall>t \<in> set allFees. \<forall>e. single t = Inl e \<longrightarrow> isPoolAbsent e"
    and some: "returnedQuotes single \<noteq> []"
    and quotes: "quotes = returnedQuotes single"
  shows "(validateNumericAmount amountIn ''amountIn'' False = Inr ()
            \<and> (\<forall>q \<in> set quotes. outTokenAmount q \<noteq> NaN) \<longrightarrow>
          (\<exists>i < length quotes.
              quoteExactInput single settleOrder tokenIn tokenOut amountIn None = Inr (quotes ! i)
            \<and> (\<forall>q \<in> set quotes.
                  isLessThan (outTokenAmount q) (outTokenAmount (quotes ! i))
                  \<or> comparedTo (outTokenAmount q) (outTokenAmount (quotes ! i)) = Some 0)
            \<and> (\<forall>j < i. isLessThan (outTokenAmount (quotes ! j)) (outTokenAmount (quotes ! i)))))
       \<and> (validateNumericAmount amountOut ''amountOut'' False = Inr ()
            \<and> (\<forall>q \<in> set quotes. inTokenAmount q \<noteq> NaN) \<longrightarrow>
          (\<exists>i < length quotes.
              quoteExactOutput single settleOrder tokenIn tokenOut amountOut None = Inr (quotes ! i)
            \<and> (\<forall>q \<in> set quotes.
                  isGreaterThan (inTokenAmount q) (inTokenAmount (quotes ! i))
                  \<or> comparedTo (inTokenAmount q) (inTokenAmount (quotes ! i)) = Some 0)
            \<and> (\<forall>j < i. isGreaterThan (inTokenAmount (quotes ! j)) (inTokenAmount (quotes ! i)))))"
proof -
  from some quotes have "quotes \<noteq> []" by simp
  then obtain q qs where qs: "quotes = q # qs" by (cases quotes) simp_all
  have all: "quoteAllTiers f single settleOrder tokenIn tokenOut = Inr (foldl f q qs)" for f
    using quoteAllTiers_no_other_error [OF ok, of f settleOrder tokenIn tokenOut] qs quotes
    by simp
  let ?gt = "\<lambda>a b. isGreaterThan (outTokenAmount a) (outTokenAmount b)"
  let ?lt = "\<lambda>a b. isLessThan (inTokenAmount a) (inTokenAmount b)"
  have inp: "\<exists>i < length (q # qs). foldl (pick ?gt) q qs = (q # qs) ! i
           \<and> (\<forall>z \<in> set (q # qs). \<not> ?gt z ((q # qs) ! i))
           \<and> (\<forall>j < i. ?gt ((q # qs) ! i) ((q # qs) ! j) \<or> outTokenAmount ((q # qs) ! j) = NaN)"
    by (rule foldl_pick_first_best) (use isGreaterThan_asym isGreaterThan_step in blast)+
  have outp: "\<exists>i < length (q # qs). foldl (pick ?lt) q qs = (q # qs) ! i
           \<and> (\<forall>z \<in> set (q # qs). \<not> ?lt z ((q # qs) ! i))
           \<and> (\<forall>j < i. ?lt ((q # qs) ! i) ((q # qs) ! j) \<or> inTokenAmount ((q # qs) ! j) = NaN)"
    by (rule foldl_pick_first_best) (use isLessThan_asym isLessThan_step in blast)+
  have 1: "\<exists>i < length quotes.
              quoteExactInput single settleOrder tokenIn tokenOut amountIn None = Inr (quotes ! i)
            \<and> (\<forall>q \<in> set quotes.
                  isLessThan (outTokenAmount q) (outTokenAmount (quotes ! i))
                  \<or> comparedTo (outTokenAmount q) (outTokenAmount (quotes ! i)) = Some 0)
            \<and> (\<forall>j < i. isLessThan (outTokenAmount (quotes ! j)) (outTokenAmount (quotes ! i)))"
    if v: "validateNumericAmount amountIn ''amountIn'' False = Inr ()"
      and num: "\<forall>q \<in> set quotes. outTokenAmount q \<noteq> NaN"
  proof -
    from inp obtain i where i: "i < length quotes"
      and r: "foldl (pick ?gt) q qs = quotes ! i"
      and mx: "\<forall>z \<in> set quotes. \<not> ?gt z (quotes ! i)"
      and fst: "\<forall>j < i. ?gt (quotes ! i) (quotes ! j) \<or> outTokenAmount (quotes ! j) = NaN"
      unfolding qs by blast
    have res: "quoteExactInput single settleOrder tokenIn tokenOut amountIn None
                 = Inr (quotes ! i)"
      unfolding quoteExactInput_all [OF v] all r ..
    have ni: "outTokenAmount (quotes ! i) \<noteq> NaN" using num i by simp
    have best: "isLessThan (outTokenAmount z) (outTokenAmount (quotes ! i))
                \<or> comparedTo (outTokenAmount z) (outTokenAmount (quotes ! i)) = Some 0"
      if "z \<in> set quotes" for z
      using that num ni mx by (intro isGreaterThan_total) simp_all
    have first: "isLessThan (outTokenAmount (quotes ! j)) (outTokenAmount (quotes ! i))"
      if "j < i" for j
    proof -
      from that i have "quotes ! j \<in> set quotes" by simp
      with num have "outTokenAmount (quotes ! j) \<noteq> NaN" by blast
      with fst that show ?thesis unfolding isLessThan_conv by blast
    qed
    from i res best first show ?thesis by blast
  qed
  have 2: "\<exists>i < length quotes.
              quoteExactOutput single settleOrder tokenIn tokenOut amountOut None = Inr (quotes ! i)
            \<and> (\<forall>q \<in> set quotes.
                  isGreaterThan (inTokenAmount q) (inTokenAmount (quotes ! i))
                  \<or> comparedTo (inTokenAmount q) (inTokenAmount (quotes ! i)) = Some 0)
            \<and> (\<forall>j < i. isGreaterThan (inTokenAmount (quotes ! j)) (inTokenAmount (quotes ! i)))"
    if v: "validateNumericAmount amountOut ''amountOut'' False = Inr ()"
      and num: "\<forall>q \<in> set quotes. inTokenAmount q \<noteq> NaN"
  proof -
    from outp obtain i where i: "i < length quotes"
      and r: "foldl (pick ?lt) q qs = quotes ! i"
      and mx: "\<forall>z \<in> set quotes. \<not> ?lt z (quotes ! i)"
      and fst: "\<forall>j < i. ?lt (quotes ! i) (quotes ! j) \<or> inTokenAmount (quotes ! j) = NaN"
      unfolding qs by blast
    have res: "quoteExactOutput single settleOrder tokenIn tokenOut amountOut None
                 = Inr (quotes ! i)"
      unfolding quoteExactOutput_all [OF v] all r ..
    have ni: "inTokenAmount (quotes ! i) \<noteq> NaN" using num i by simp
    have best: "isGreaterThan (inTokenAmount z) (inTokenAmount (quotes ! i))
                \<or> comparedTo (inTokenAmount z) (inTokenAmount (quotes ! i)) = Some 0"
      if z: "z \<in> set quotes" for z
    proof -
      from z num have nz: "inTokenAmount z \<noteq> NaN" by blast
      from z mx have "\<not> isGreaterThan (inTokenAmount (quotes ! i)) (inTokenAmount z)"
        by (simp add: isLessThan_conv)
      with ni nz have "isLessThan (inTokenAmount (quotes ! i)) (inTokenAmount z)
                       \<or> comparedTo (inTokenAmount (quotes ! i)) (inTokenAmount z) = Some 0"
        by (intro isGreaterThan_total)
      then show ?thesis using comparedTo_sym by (auto simp: isLessThan_conv)
    qed
    have first: "isGreaterThan (inTokenAmount (quotes ! j)) (inTokenAmount (quotes ! i))"
      if "j < i" for j
    proof -
      from that i have "quotes ! j \<in> set quotes" by simp
      with num have "inTokenAmount (quotes ! j) \<noteq> NaN" by blast
      with fst that show ?thesis unfolding isLessThan_conv by blast
    qed
    from i res best first show ?thesis by blast
  qed
  from 1 2 show ?thesis by blast
qed

lemma poolAbsentError_absent: "isPoolAbsent poolAbsentError"
  by (simp add: isPoolAbsent_def poolAbsentError_def)

theorem best_quote_across_tiers_witness:
  "quoteExactInput tiersFirstAbsent [] gala silk (Num 1) None
     = Inr (exampleQuote PERCENT_01_00 18 12)
   \<and> quoteExactOutput tiersFirstAbsent [] gala silk (Num 1) None
     = Inr (exampleQuote PERCENT_01_00 18 12)
   \<and> quoteExactInput tiersTie [] gala silk (Num 1) None
     = Inr (exampleQuote PERCENT_00_05 20 12)
   \<and> quoteExactOutput tiersTie [] gala silk (Num 1) None
     = Inr (exampleQuote PERCENT_00_05 20 12)"
proof -
  have ok1: "\<forall>t \<in> set allFees. \<forall>e. tiersFirstAbsent t = Inl e \<longrightarrow> isPoolAbsent e"
    by (simp add: allFees_def poolAbsentError_absent)
  have q1: "[exampleQuote PERCENT_00_30 22 10, exampleQuote PERCENT_01_00 18 12]
              = returnedQuotes tiersFirstAbsent"
    by (simp add: returnedQuotes_def allFees_def)
  then have s1: "returnedQuotes tiersFirstAbsent \<noteq> []" by (simp add: q1 [symmetric])
  have ok2: "\<forall>t \<in> set allFees. \<forall>e. tiersTie t = Inl e \<longrightarrow> isPoolAbsent e"
    by (simp add: allFees_def poolAbsentError_absent)
  have q2: "[exampleQuote PERCENT_00_05 20 12, exampleQuote PERCENT_00_30 20 12]
              = returnedQuotes tiersTie"
    by (simp add: returnedQuotes_def allFees_def)
  then have s2: "returnedQuotes tiersTie \<noteq> []" by (simp add: q2 [symmetric])
  note a = best_quote_across_tiers [OF ok1 s1 q1, of "Num 1" "[]" gala silk "Num 1"]
  note b = best_quote_across_tiers [OF ok2 s2 q2, of "Num 1" "[]" gala silk "Num 1"]
  have 1: "quoteExactInput tiersFirstAbsent [] gala silk (Num 1) None
     = Inr (exampleQuote PERCENT_01_00 18 12)"
    using a
    by (auto simp: valid_amount less_Suc_eq exampleQuote_def isGreaterThan_def isLessThan_def
          comparedTo_def isFinite_def finiteValue_def)
  have 2: "quoteExactOutput tiersFirstAbsent [] gala silk (Num 1) None
     = Inr (exampleQuote PERCENT_01_00 18 12)"
    using a
    by (auto simp: valid_amount less_Suc_eq exampleQuote_def isGreaterThan_def isLessThan_def
          comparedTo_def isFinite_def finiteValue_def)
  have 3: "quoteExactInput tiersTie [] gala silk (Num 1) None
     = Inr (exampleQuote PERCENT_00_05 20 12)"
    using b
    by (auto simp: valid_amount less_Suc_eq exampleQuote_def isGreaterThan_def isLessThan_def
          comparedTo_def isFinite_def finiteValue_def)
  have 4: "quoteExactOutput tiersTie [] gala silk (Num 1) None
     = Inr (exampleQuote PERCENT_00_05 20 12)"
    using b
    by (auto simp: valid_amount less_Suc_eq exampleQuote_def isGreaterThan_def isLessThan_def
          comparedTo_def isFinite_def finiteValue_def)
  from 1 2 3 4 show ?thesis by (intro conjI)
qed

lemma foldl_pick_mem: "foldl (pick better) x xs \<in> set (x # xs)"
proof (induction xs rule: rev_induct)
  case Nil
  then show ?case by simp
next
  case (snoc y ys)
  then show ?case by (auto simp: pick_def)
qed

lemma quoteAllTiers_returns_quote:
  assumes ok: "\<forall>t \<in> set allFees. \<forall>e. single t = Inl e \<longrightarrow> isPoolAbsent e"
    and some: "\<exists>t \<in> set allFees. \<exists>q. single t = Inr q"
  shows "\<exists>t \<in> set allFees. \<exists>q. single t = Inr q
           \<and> quoteAllTiers (pick better) single settleOrder tokenIn tokenOut = Inr q"
proof -
  from some obtain t0 q0 where "t0 \<in> set allFees" "single t0 = Inr q0" by blast
  then have "q0 \<in> set (returnedQuotes single)" unfolding returnedQuotes_mem by blast
  then have "returnedQuotes single \<noteq> []" by auto
  then obtain q qs where qs: "returnedQuotes single = q # qs"
    by (cases "returnedQuotes single") simp_all
  have r: "quoteAllTiers (pick better) single settleOrder tokenIn tokenOut
             = Inr (foldl (pick better) q qs)"
    using quoteAllTiers_no_other_error [OF ok, of "pick better" settleOrder tokenIn tokenOut]
    by (simp add: qs)
  have "foldl (pick better) q qs \<in> set (returnedQuotes single)"
    unfolding qs by (rule foldl_pick_mem)
  then obtain t where "t \<in> set allFees" "single t = Inr (foldl (pick better) q qs)"
    unfolding returnedQuotes_mem by blast
  with r show ?thesis by auto
qed

lemma quoteAllTiers_all_absent:
  assumes "\<forall>t \<in> set allFees. \<exists>e. single t = Inl e \<and> isPoolAbsent e"
  shows "quoteAllTiers f single settleOrder tokenIn tokenOut
           = Inl (SDKError (noPoolAvailableError tokenIn tokenOut None))"
proof -
  from assms have ok: "\<forall>t \<in> set allFees. \<forall>e. single t = Inl e \<longrightarrow> isPoolAbsent e" by auto
  from assms have "returnedQuotes single = []" unfolding returnedQuotes_Nil by blast
  with quoteAllTiers_no_other_error [OF ok, of f settleOrder tokenIn tokenOut]
  show ?thesis by simp
qed

text \<open>
  C6. With a valid amount and no fee tier specified: if every fee tier fails with a
  pool-absent error (a \<open>GSwapSDKError\<close> with code \<open>CONFLICT\<close> or
  \<open>OBJECT_NOT_FOUND\<close>), both methods throw \<open>NO_POOL_AVAILABLE\<close>; if some fee tier fails
  with any other error, both methods throw such an error of one of the tiers; and if the
  only failures are pool-absent ones and some tier returned a quote, both methods return
  the quote of a tier, the absent tiers leaving no trace.
\<close>

theorem absent_filtered_others_propagated:
  assumes vi: "validateNumericAmount amountIn ''amountIn'' False = Inr ()"
    and vo: "validateNumericAmount amountOut ''amountOut'' False = Inr ()"
  shows "((\<forall>t \<in> set allFees. \<exists>e. single t = Inl e \<and> isPoolAbsent e) \<longrightarrow>
            quoteExactInput single settleOrder tokenIn tokenOut amountIn None
              = Inl (SDKError (noPoolAvailableError tokenIn tokenOut None))
          \<and> quoteExactOutput single settleOrder tokenIn tokenOut amountOut None
              = Inl (SDKError (noPoolAvailableError tokenIn tokenOut None))
          \<and> code (noPoolAvailableError tokenIn tokenOut None) = ''NO_POOL_AVAILABLE'')
       \<and> ((\<exists>t \<in> set allFees. \<exists>e. single t = Inl e \<and> \<not> isPoolAbsent e) \<longrightarrow>
            (\<exists>t \<in> set allFees. \<exists>e. single t = Inl e \<and> \<not> isPoolAbsent e
               \<and> quoteExactInput single settleOrder tokenIn tokenOut amountIn None = Inl e)
          \<and> (\<exists>t \<in> set allFees. \<exists>e. single t = Inl e \<and> \<not> isPoolAbsent e
               \<and> quoteExactOutput single settleOrder tokenIn tokenOut amountOut None = Inl e))
       \<and> ((\<forall>t \<in> set allFees. \<forall>e. single t = Inl e \<longrightarrow> isPoolAbsent e)
            \<and> (\<exists>t \<in> set allFees. \<exists>q. single t = Inr q) \<longrightarrow>
            (\<exists>t \<in> set allFees. \<exists>q. single t = Inr q
               \<and> quoteExactInput single settleOrder tokenIn tokenOut amountIn None = Inr q)
          \<and> (\<exists>t \<in> set allFees. \<exists>q. single t = Inr q
               \<and> quoteExactOutput single settleOrder tokenIn tokenOut amountOut None = Inr q))
       \<and> (\<forall>e. isPoolAbsent e \<longleftrightarrow>
            (\<exists>err. e = SDKError err \<and> (code err = ''CONFLICT'' \<or> code err = ''OBJECT_NOT_FOUND'')))"
proof -
  let ?gt = "\<lambda>a b. isGreaterThan (outTokenAmount a) (outTokenAmount b)"
  let ?lt = "\<lambda>a b. isLessThan (inTokenAmount a) (inTokenAmount b)"
  have 1: "code (noPoolAvailableError tokenIn tokenOut None) = ''NO_POOL_AVAILABLE''"
    by (simp add: noPoolAvailableError_def)
  have 2: "\<forall>e. isPoolAbsent e \<longleftrightarrow>
            (\<exists>err. e = SDKError err \<and> (code err = ''CONFLICT'' \<or> code err = ''OBJECT_NOT_FOUND''))"
  proof
    fix e show "isPoolAbsent e \<longleftrightarrow>
            (\<exists>err. e = SDKError err \<and> (code err = ''CONFLICT'' \<or> code err = ''OBJECT_NOT_FOUND''))"
      by (cases e) (simp_all add: isPoolAbsent_def)
  qed
  have 3: "quoteExactInput single settleOrder tokenIn tokenOut amountIn None
              = Inl (SDKError (noPoolAvailableError tokenIn tokenOut None))
          \<and> quoteExactOutput single settleOrder tokenIn tokenOut amountOut None
              = Inl (SDKError (noPoolAvailableError tokenIn tokenOut None))
          \<and> code (noPoolAvailableError tokenIn tokenOut None) = ''NO_POOL_AVAILABLE''"
    if "\<forall>t \<in> set allFees. \<exists>e. single t = Inl e \<and> isPoolAbsent e"
    unfolding quoteExactInput_all [OF vi] quoteExactOutput_all [OF vo]
    using quoteAllTiers_all_absent [OF that] 1 by simp
  have 4: "(\<exists>t \<in> set allFees. \<exists>e. single t = Inl e \<and> \<not> isPoolAbsent e
               \<and> quoteExactInput single settleOrder tokenIn tokenOut amountIn None = Inl e)
          \<and> (\<exists>t \<in> set allFees. \<exists>e. single t = Inl e \<and> \<not> isPoolAbsent e
               \<and> quoteExactOutput single settleOrder tokenIn tokenOut amountOut None = Inl e)"
    if "\<exists>t \<in> set allFees. \<exists>e. single t = Inl e \<and> \<not> isPoolAbsent e"
  proof -
    from that obtain t0 e0 where t0: "t0 \<in> set allFees" "single t0 = Inl e0" "\<not> isPoolAbsent e0"
      by blast
    show ?thesis
      unfolding quoteExactInput_all [OF vi] quoteExactOutput_all [OF vo]
      using quoteAllTiers_other_error
              [where single = single and f = "pick ?gt" and settleOrder = settleOrder
                 and tokenIn = tokenIn and tokenOut = tokenOut, OF t0]
        quoteAllTiers_other_error
              [where single = single and f = "pick ?lt" and settleOrder = settleOrder
                 and tokenIn = tokenIn and tokenOut = tokenOut, OF t0]
      by (intro conjI)
  qed
  have 5: "(\<exists>t \<in> set allFees. \<exists>q. single t = Inr q
               \<and> quoteExactInput single settleOrder tokenIn tokenOut amountIn None = Inr q)
          \<and> (\<exists>t \<in> set allFees. \<exists>q. single t = Inr q
               \<and> quoteExactOutput single settleOrder tokenIn tokenOut amountOut None = Inr q)"
    if "(\<forall>t \<in> set allFees. \<forall>e. single t = Inl e \<longrightarrow> isPoolAbsent e)
            \<and> (\<exists>t \<in> set allFees. \<exists>q. single t = Inr q)"
  proof -
    from that have ok: "\<forall>t \<in> set allFees. \<forall>e. single t = Inl e \<longrightarrow> isPoolAbsent e"
      and some: "\<exists>t \<in> set allFees. \<exists>q. single t = Inr q" by (rule conjunct1, rule conjunct2)
    show ?thesis
      unfolding quoteExactInput_all [OF vi] quoteExactOutput_all [OF vo]
      using quoteAllTiers_returns_quote [OF ok some, of ?gt settleOrder tokenIn tokenOut]
        quoteAllTiers_returns_quote [OF ok some, of ?lt settleOrder tokenIn tokenOut]
      by (intro conjI)
  qed
  note i3 = impI [OF 3]
  note i4 = impI [OF 4]
  note i5 = impI [OF 5]
  from i3 i4 i5 2 show ?thesis by (intro conjI)
qed

theorem absent_filtered_others_propagated_witness:
  "quoteExactInput tiersAllAbsent [] gala silk (Num 1) None
     = Inl (SDKError (noPoolAvailableError gala silk None))
   \<and> quoteExactOutput tiersAllAbsent [] gala silk (Num 1) None
     = Inl (SDKError (noPoolAvailableError gala silk None))
   \<and> quoteExactInput tiersWithFailure [] gala silk (Num 1) None = Inl httpError
   \<and> quoteExactOutput tiersWithFailure [] gala silk (Num 1) None = Inl httpError
   \<and> (\<exists>t \<in> set allFees. \<exists>q. tiersFirstAbsent t = Inr q
         \<and> quoteExactInput tiersFirstAbsent [] gala silk (Num 1) None = Inr q)"
proof -
  have h: "\<not> isPoolAbsent httpError" by (simp add: isPoolAbsent_def httpError_def)
  have abs: "\<forall>t \<in> set allFees. \<exists>e. tiersAllAbsent t = Inl e \<and> isPoolAbsent e"
    by (simp add: tiersAllAbsent_def poolAbsentError_absent)
  have other: "\<exists>t \<in> set allFees. \<exists>e. tiersWithFailure t = Inl e \<and> \<not> isPoolAbsent e"
    by (simp add: allFees_def h)
  have only: "e = httpError" if "t \<in> set allFees" "tiersWithFailure t = Inl e" for t e
    using that(2) by (cases t) simp_all
  have ok: "(\<forall>t \<in> set allFees. \<forall>e. tiersFirstAbsent t = Inl e \<longrightarrow> isPoolAbsent e)
            \<and> (\<exists>t \<in> set allFees. \<exists>q. tiersFirstAbsent t = Inr q)"
    by (simp add: allFees_def poolAbsentError_absent)
  note a = absent_filtered_others_propagated
             [OF valid_amount valid_amount, of tiersAllAbsent "[]" gala silk]
  note b = absent_filtered_others_propagated
             [OF valid_amount valid_amount, of tiersWithFailure "[]" gala silk]
  note c = absent_filtered_others_propagated
             [OF valid_amount valid_amount, of tiersFirstAbsent "[]" gala silk]
  from a abs have 1: "quoteExactInput tiersAllAbsent [] gala silk (Num 1) None
     = Inl (SDKError (noPoolAvailableError gala silk None))
   \<and> quoteExactOutput tiersAllAbsent [] gala silk (Num 1) None
     = Inl (SDKError (noPoolAvailableError gala silk None))"
    by blast
  from b other have "(\<exists>t \<in> set allFees. \<exists>e. tiersWithFailure t = Inl e \<and> \<not> isPoolAbsent e
               \<and> quoteExactInput tiersWithFailure [] gala silk (Num 1) None = Inl e)
          \<and> (\<exists>t \<in> set allFees. \<exists>e. tiersWithFailure t = Inl e \<and> \<not> isPoolAbsent e
               \<and> quoteExactOutput tiersWithFailure [] gala silk (Num 1) None = Inl e)"
    by blast
  with only have 2: "quoteExactInput tiersWithFailure [] gala silk (Num 1) None = Inl httpError
      \<and> quoteExactOutput tiersWithFailure [] gala silk (Num 1) None = Inl httpError"
    by metis
  from c ok have 3: "\<exists>t \<in> set allFees. \<exists>q. tiersFirstAbsent t = Inr q
         \<and> quoteExactInput tiersFirstAbsent [] gala silk (Num 1) None = Inr q"
    by blast
  from 1 2 3 show ?thesis by blast
qed

end
